theory Spec2Isabelle
  imports Main "HOL-Library.Multiset"
begin

section \<open>Python values and library calls used by binairo.py\<close>

text \<open>
  The exceptions the source can raise: a failed \<^verbatim>\<open>assert\<close>, unpacking \<^verbatim>\<open>None\<close>
  into three names, and an index outside a list.
\<close>

datatype py_error = AssertionError | TypeError | IndexError

text \<open>
  \<^verbatim>\<open>range(n)\<close> for an integer \<^verbatim>\<open>n\<close>: the indices 0 .. n-1, empty when \<^verbatim>\<open>n\<close> is not positive.
\<close>

definition py_range :: "int \<Rightarrow> nat list" where
  "py_range n = [0..<nat n]"

text \<open>
  \<^verbatim>\<open>random.randint(a, b)\<close> returns some integer between \<^verbatim>\<open>a\<close> and \<^verbatim>\<open>b\<close>, both included.
  The argument \<open>r\<close> is the entropy of the call: every value of the range is the result for
  some \<open>r\<close>. Both call sites of the source have \<^verbatim>\<open>a <= b\<close> (0 and 1; 0 and a length minus
  one that the preceding \<^verbatim>\<open>assert\<close> makes non-negative).
\<close>

definition randint :: "nat \<Rightarrow> nat \<Rightarrow> nat \<Rightarrow> nat" where
  "randint a b r = a + r mod (b - a + 1)"

text \<open>A fixed sequence of entropy values, for running the code on concrete inputs.\<close>

definition draws_of :: "nat list \<Rightarrow> nat \<Rightarrow> nat" where
  "draws_of rs k = (if k < length rs then rs ! k else 0)"

text \<open>\<^verbatim>\<open>g[i][j]\<close> on a list of lists, with Python's IndexError.\<close>

definition get_cell :: "'a list list \<Rightarrow> nat \<Rightarrow> nat \<Rightarrow> py_error + 'a" where
  "get_cell g i j =
     (if i < length g then
        (if j < length (g ! i) then Inr (g ! i ! j) else Inl IndexError)
      else Inl IndexError)"

text \<open>\<^verbatim>\<open>xs.pop(k)\<close> for an index inside the list: the list without its k-th element.\<close>

definition pop_at :: "nat \<Rightarrow> 'a list \<Rightarrow> 'a list" where
  "pop_at k xs = take k xs @ drop (Suc k) xs"

section \<open>class Binairo: the game grid\<close>

text \<open>
  A cell is \<^verbatim>\<open>None\<close> or an integer. The field \<^verbatim>\<open>size\<close> is called \<open>size_b\<close> here, since
  \<open>size\<close> is a constant of HOL.

  \<^verbatim>\<open>self.grid\<close> is a list of references to row objects, and \<^verbatim>\<open>self.grid[i][j] = v\<close>
  writes into the row object that entry \<open>i\<close> refers to. \<^verbatim>\<open>__init__\<close> keeps a supplied
  grid by reference (\<^verbatim>\<open>self.grid = initial_grid\<close>), and two entries of a supplied grid may
  refer to one row object, so the rows live in an explicit store: \<open>row_objects\<close> holds the
  row objects, \<open>row_refs\<close> holds for every entry of the grid the address of its row, and
  the grid as it reads is \<open>grid\<close>. An address outside the store reads as a row without
  cells.
\<close>

type_synonym cell = "int option"

type_synonym board = "cell list list"

type_synonym square = "nat \<times> nat"

record binairo =
  size_b :: int
  row_refs :: "nat list"
  row_objects :: "cell list list"
  filled_squares :: "square list"
  last_removed :: "(nat \<times> nat \<times> cell) option"

definition row_at :: "'a list list \<Rightarrow> nat \<Rightarrow> 'a list" where
  "row_at objs r = (if r < length objs then objs ! r else [])"

definition grid :: "binairo \<Rightarrow> board" where
  "grid b = map (row_at (row_objects b)) (row_refs b)"

text \<open>
  \<^verbatim>\<open>g[i][j] = v\<close> on a list \<open>refs\<close> of row references: the row object at \<open>refs ! i\<close>
  changes, and with it every entry of the grid that refers to it.
\<close>

definition set_cell :: "nat list \<Rightarrow> 'a list list \<Rightarrow> nat \<Rightarrow> nat \<Rightarrow> 'a \<Rightarrow> py_error + 'a list list" where
  "set_cell refs objs i j v =
     (if i < length refs then
        (if j < length (row_at objs (refs ! i)) then
           Inr (objs[refs ! i := (row_at objs (refs ! i))[j := v]])
         else Inl IndexError)
      else Inl IndexError)"

text \<open>
  A list of lists built by a comprehension, as \<^verbatim>\<open>_generate_random_grid\<close> builds it: every
  row is a new list object.
\<close>

definition new_rows :: "board \<Rightarrow> nat list \<times> cell list list" where
  "new_rows g = ([0..<length g], g)"

text \<open>
  \<^verbatim>\<open>_generate_random_grid\<close>:
  \<^verbatim>\<open>[[random.randint(0, 1)] * self.size for _ in range(self.size)]\<close>.
  The k-th iteration calls \<^verbatim>\<open>randint\<close> once (entropy \<open>rnd k\<close>) and repeats the one-element
  list \<^verbatim>\<open>size\<close> times.
\<close>

definition generate_random_grid :: "int \<Rightarrow> (nat \<Rightarrow> nat) \<Rightarrow> board" where
  "generate_random_grid sz rnd =
     map (\<lambda>k. replicate (nat sz) (Some (int (randint 0 1 (rnd k))))) (py_range sz)"

text \<open>
  \<^verbatim>\<open>Binairo.__init__(size, initial_grid=None)\<close>. A supplied grid is the caller's list
  object: its row references and the store they point into, kept as they are. The source
  has no \<^verbatim>\<open>raise\<close> and no \<^verbatim>\<open>assert\<close> here, so the model has no error branch; the result
  is a sum so that claims about failure can be stated.
\<close>

definition Binairo_init ::
    "int \<Rightarrow> (nat list \<times> cell list list) option \<Rightarrow> (nat \<Rightarrow> nat) \<Rightarrow> py_error + binairo" where
  "Binairo_init sz initial_grid rnd =
     (let g = (case initial_grid of
                 None \<Rightarrow> new_rows (generate_random_grid sz rnd)
               | Some supplied \<Rightarrow> supplied)
      in Inr \<lparr> size_b = sz,
               row_refs = fst g,
               row_objects = snd g,
               filled_squares = concat (map (\<lambda>x. map (\<lambda>y. (x, y)) (py_range sz)) (py_range sz)),
               last_removed = None \<rparr>)"

text \<open>\<^verbatim>\<open>remove_random_square\<close>; \<open>r\<close> is the entropy of its \<^verbatim>\<open>randint\<close> call.\<close>

definition remove_random_square :: "nat \<Rightarrow> binairo \<Rightarrow> py_error + binairo" where
  "remove_random_square r b =
     (if \<not> length (filled_squares b) > 0 then Inl AssertionError
      else
        let square_idx = randint 0 (length (filled_squares b) - 1) r;
            (i, j) = filled_squares b ! square_idx
        in case get_cell (grid b) i j of
             Inl e \<Rightarrow> Inl e
           | Inr val \<Rightarrow>
               (case set_cell (row_refs b) (row_objects b) i j None of
                  Inl e \<Rightarrow> Inl e
                | Inr objs \<Rightarrow>
                    Inr (b\<lparr> row_objects := objs,
                            filled_squares := pop_at square_idx (filled_squares b),
                            last_removed := Some (i, j, val) \<rparr>)))"

text \<open>
  \<^verbatim>\<open>cancel_last_remove\<close>: unpacking \<^verbatim>\<open>self.last_removed\<close> raises TypeError when it is
  \<^verbatim>\<open>None\<close>; the record is not reset afterwards.
\<close>

definition cancel_last_remove :: "binairo \<Rightarrow> py_error + binairo" where
  "cancel_last_remove b =
     (case last_removed b of
        None \<Rightarrow> Inl TypeError
      | Some (i, j, val) \<Rightarrow>
          (case set_cell (row_refs b) (row_objects b) i j val of
             Inl e \<Rightarrow> Inl e
           | Inr objs \<Rightarrow>
               Inr (b\<lparr> row_objects := objs, filled_squares := filled_squares b @ [(i, j)] \<rparr>)))"

text \<open>
  A session on one grid: a sequence of the two mutating operations, stopping at the
  first exception.
\<close>

datatype grid_op = RemoveRandomCell nat | UndoLastRemoval

fun apply_grid_op :: "grid_op \<Rightarrow> binairo \<Rightarrow> py_error + binairo" where
  "apply_grid_op (RemoveRandomCell r) b = remove_random_square r b"
| "apply_grid_op UndoLastRemoval b = cancel_last_remove b"

fun run_ops :: "grid_op list \<Rightarrow> binairo \<Rightarrow> py_error + binairo" where
  "run_ops [] b = Inr b"
| "run_ops (x # ops) b =
     (case apply_grid_op x b of Inl e \<Rightarrow> Inl e | Inr b' \<Rightarrow> run_ops ops b')"

definition run_from_new ::
    "int \<Rightarrow> (nat list \<times> cell list list) option \<Rightarrow> (nat \<Rightarrow> nat) \<Rightarrow> grid_op list \<Rightarrow> py_error + binairo" where
  "run_from_new sz initial_grid rnd ops =
     (case Binairo_init sz initial_grid rnd of Inl e \<Rightarrow> Inl e | Inr b \<Rightarrow> run_ops ops b)"

text \<open>The positions of a grid whose cell is not \<^verbatim>\<open>None\<close>, in row-major order.\<close>

definition nonempty_squares :: "board \<Rightarrow> square list" where
  "nonempty_squares g =
     concat (map (\<lambda>i. map (\<lambda>j. (i, j)) (filter (\<lambda>j. g ! i ! j \<noteq> None) [0..<length (g ! i)]))
                 [0..<length g])"

text \<open>The invariant of the data model: the filled list holds exactly those positions.\<close>

definition filled_matches :: "binairo \<Rightarrow> bool" where
  "filled_matches b = (set (filled_squares b) = set (nonempty_squares (grid b)))"

text \<open>Every undo of a session directly follows a removal.\<close>

fun undo_follows_remove :: "bool \<Rightarrow> grid_op list \<Rightarrow> bool" where
  "undo_follows_remove p [] = True"
| "undo_follows_remove p (RemoveRandomCell r # ops) = undo_follows_remove True ops"
| "undo_follows_remove p (UndoLastRemoval # ops) = (p \<and> undo_follows_remove False ops)"

text \<open>A grid is dense and square: \<open>sz\<close> rows of \<open>sz\<close> cells, none of them empty.\<close>

definition dense_square :: "int \<Rightarrow> board \<Rightarrow> bool" where
  "dense_square sz g =
     (length g = nat sz \<and> list_all (\<lambda>row. length row = nat sz \<and> list_all (\<lambda>c. c \<noteq> None) row) g)"

text \<open>Every position of the filled list lies inside the grid.\<close>

definition squares_in_grid :: "binairo \<Rightarrow> bool" where
  "squares_in_grid b =
     list_all (\<lambda>p. fst p < length (grid b) \<and> snd p < length (grid b ! fst p)) (filled_squares b)"

text \<open>
  The state right after a removal: the record holds a value that was not \<^verbatim>\<open>None\<close>, and the
  cell at its position is now \<^verbatim>\<open>None\<close>.
\<close>

definition removal_pending :: "binairo \<Rightarrow> bool" where
  "removal_pending b =
     (case last_removed b of
        None \<Rightarrow> False
      | Some (i, j, v) \<Rightarrow> v \<noteq> None \<and> get_cell (grid b) i j = Inr None)"

text \<open>
  The entries of the grid refer to separate row objects, the filled list has no
  repetition, and it holds exactly the non-empty positions.
\<close>

definition grid_inv :: "binairo \<Rightarrow> bool" where
  "grid_inv b = (distinct (row_refs b) \<and> distinct (filled_squares b) \<and> filled_matches b)"

section \<open>class BinairoGenerator: the constraint model\<close>

text \<open>
  A linear expression over the model's variables is a single variable or a \<^verbatim>\<open>sum([...])\<close>
  of variables; a variable is named by its key \<^verbatim>\<open>(i, j)\<close> in \<^verbatim>\<open>var_grid\<close>. A constraint
  compares an expression with an integer, as the three comparisons of the source do.
\<close>

datatype lin_expr = VarE square | SumE "square list"

datatype constraint = Eq_c lin_expr int | Gt_c lin_expr int | Lt_c lin_expr int

text \<open>
  \<^verbatim>\<open>cp_model.CpModel\<close>: the integer variables in creation order, each with its bounds, and
  the constraints in the order they were added.
\<close>

record cp_model =
  int_vars :: "(square \<times> int \<times> int) list"
  constraints :: "constraint list"

definition CpModel :: cp_model where
  "CpModel = \<lparr> int_vars = [], constraints = [] \<rparr>"

definition NewIntVar :: "int \<Rightarrow> int \<Rightarrow> square \<Rightarrow> cp_model \<Rightarrow> cp_model" where
  "NewIntVar lb ub name m = m\<lparr> int_vars := int_vars m @ [(name, lb, ub)] \<rparr>"

definition Add :: "constraint \<Rightarrow> cp_model \<Rightarrow> cp_model" where
  "Add c m = m\<lparr> constraints := constraints m @ [c] \<rparr>"

text \<open>
  The pairs \<^verbatim>\<open>(i, j)\<close> of \<^verbatim>\<open>for i in range(n): for j in range(k):\<close>, in the order the
  nested loops visit them.
\<close>

definition nested_range :: "int \<Rightarrow> int \<Rightarrow> square list" where
  "nested_range n k = concat (map (\<lambda>i. map (\<lambda>j. (i, j)) (py_range k)) (py_range n))"

text \<open>
  \<^verbatim>\<open>_build_var_grid\<close>: one variable with bounds 0 and 1 per cell; the result pairs the
  model with the keys of \<^verbatim>\<open>var_grid\<close> in insertion order.
\<close>

definition build_var_grid :: "int \<Rightarrow> cp_model \<Rightarrow> cp_model \<times> square list" where
  "build_var_grid board_size m =
     (fold (\<lambda>key m. NewIntVar 0 1 key m) (nested_range board_size board_size) m,
      nested_range board_size board_size)"

text \<open>\<^verbatim>\<open>_add_initial_values\<close>: reading \<^verbatim>\<open>grid[i][j]\<close> outside the grid raises.\<close>

fun add_initial_values_loop :: "board \<Rightarrow> square list \<Rightarrow> cp_model \<Rightarrow> py_error + cp_model" where
  "add_initial_values_loop g [] m = Inr m"
| "add_initial_values_loop g ((i, j) # rest) m =
     (case get_cell g i j of
        Inl e \<Rightarrow> Inl e
      | Inr None \<Rightarrow> add_initial_values_loop g rest m
      | Inr (Some v) \<Rightarrow> add_initial_values_loop g rest (Add (Eq_c (VarE (i, j)) v) m))"

definition add_initial_values :: "int \<Rightarrow> board \<Rightarrow> cp_model \<Rightarrow> py_error + cp_model" where
  "add_initial_values board_size g m =
     add_initial_values_loop g (nested_range board_size board_size) m"

text \<open>The slice \<^verbatim>\<open>xs[a:b]\<close> for \<^verbatim>\<open>0 <= a <= b\<close>.\<close>

definition py_slice :: "'a list \<Rightarrow> nat \<Rightarrow> nat \<Rightarrow> 'a list" where
  "py_slice xs a b = take (b - a) (drop a xs)"

text \<open>\<^verbatim>\<open>_add_constraint_c1\<close>: four constraints per row index and window start.\<close>

definition add_c1_window :: "int \<Rightarrow> square \<Rightarrow> cp_model \<Rightarrow> cp_model" where
  "add_c1_window board_size ij m =
     (let i = fst ij; j = snd ij;
          sum_three_consecutives_row =
            SumE (map (\<lambda>jl. (i, jl)) (py_slice (py_range board_size) j (j + 3)));
          m = Add (Gt_c sum_three_consecutives_row 0) m;
          m = Add (Lt_c sum_three_consecutives_row 3) m;
          sum_three_consecutives_col =
            SumE (map (\<lambda>jl. (jl, i)) (py_slice (py_range board_size) j (j + 3)));
          m = Add (Gt_c sum_three_consecutives_col 0) m;
          m = Add (Lt_c sum_three_consecutives_col 3) m
      in m)"

definition add_constraint_c1 :: "int \<Rightarrow> cp_model \<Rightarrow> cp_model" where
  "add_constraint_c1 board_size m =
     fold (add_c1_window board_size) (nested_range board_size (board_size - 2)) m"

text \<open>\<^verbatim>\<open>_add_constraint_c2\<close>: \<^verbatim>\<open>line_sum = self.board_size // 2\<close>, rows first, then columns.\<close>

definition add_constraint_c2 :: "int \<Rightarrow> cp_model \<Rightarrow> cp_model" where
  "add_constraint_c2 board_size m =
     (let line_sum = board_size div 2;
          m = fold (\<lambda>i m. Add (Eq_c (SumE (map (\<lambda>j. (i, j)) (py_range board_size))) line_sum) m)
                (py_range board_size) m;
          m = fold (\<lambda>j m. Add (Eq_c (SumE (map (\<lambda>i. (i, j)) (py_range board_size))) line_sum) m)
                (py_range board_size) m
      in m)"

text \<open>
  The model-building half of \<^verbatim>\<open>_get_valid_solutions\<close>: a new model, its variables, then
  the three groups of constraints.
\<close>

definition build_model :: "int \<Rightarrow> board \<Rightarrow> py_error + cp_model \<times> square list" where
  "build_model board_size g =
     (case build_var_grid board_size CpModel of
        (m, var_grid) \<Rightarrow>
          (case add_initial_values board_size g m of
             Inl e \<Rightarrow> Inl e
           | Inr m \<Rightarrow> Inr (add_constraint_c2 board_size (add_constraint_c1 board_size m), var_grid)))"

section \<open>The solver and the solution callback\<close>

text \<open>
  An assignment lists one value per variable, in the order the variables were created.
  \<open>Value\<close> reads a variable's value, as \<^verbatim>\<open>self.Value(v)\<close> does in the callback.
\<close>

definition Value :: "cp_model \<Rightarrow> int list \<Rightarrow> square \<Rightarrow> int" where
  "Value m a v = (case map_of (zip (map fst (int_vars m)) a) v of Some x \<Rightarrow> x | None \<Rightarrow> 0)"

fun eval_expr :: "(square \<Rightarrow> int) \<Rightarrow> lin_expr \<Rightarrow> int" where
  "eval_expr val (VarE v) = val v"
| "eval_expr val (SumE vs) = sum_list (map val vs)"

fun holds :: "(square \<Rightarrow> int) \<Rightarrow> constraint \<Rightarrow> bool" where
  "holds val (Eq_c e n) = (eval_expr val e = n)"
| "holds val (Gt_c e n) = (eval_expr val e > n)"
| "holds val (Lt_c e n) = (eval_expr val e < n)"

definition in_bounds :: "square \<times> int \<times> int \<Rightarrow> int \<Rightarrow> bool" where
  "in_bounds var x = (fst (snd var) \<le> x \<and> x \<le> snd (snd var))"

definition satisfies :: "cp_model \<Rightarrow> int list \<Rightarrow> bool" where
  "satisfies m a =
     (list_all2 in_bounds (int_vars m) a \<and> list_all (holds (Value m a)) (constraints m))"

text \<open>
  \<^verbatim>\<open>class VarArraySolutions\<close>. \<^verbatim>\<open>on_solution_callback\<close> returns the updated object and
  whether it called \<^verbatim>\<open>StopSearch\<close>; the threshold is the literal 2 of the source, not the
  field \<^verbatim>\<open>max_solutions_until_stop\<close>.
\<close>

record var_array_solutions =
  cb_variables :: "square list"
  max_solutions_until_stop :: nat
  solution_count :: nat
  cb_solutions :: "int list list"

definition VarArraySolutions_init :: "square list \<Rightarrow> nat \<Rightarrow> var_array_solutions" where
  "VarArraySolutions_init vars max_solutions =
     \<lparr> cb_variables = vars, max_solutions_until_stop = max_solutions,
       solution_count = 0, cb_solutions = [] \<rparr>"

definition on_solution_callback :: "(square \<Rightarrow> int) \<Rightarrow> var_array_solutions \<Rightarrow> var_array_solutions \<times> bool" where
  "on_solution_callback val cb =
     (let cb = cb\<lparr> solution_count := solution_count cb + 1 \<rparr>;
          solution = map val (cb_variables cb);
          cb = cb\<lparr> cb_solutions := cb_solutions cb @ [solution] \<rparr>
      in (cb, solution_count cb \<ge> 2))"

datatype cp_status = UNKNOWN | MODEL_INVALID | FEASIBLE | INFEASIBLE | OPTIMAL

text \<open>
  Modelled from the spec: the constraint solver (OR-tools' \<^verbatim>\<open>CpSolver\<close>) is an external
  library, not code of this repository. The spec describes it as a capability that, given
  the variables and the constraints, returns satisfying assignments in discovery order,
  supports early termination, and reports infeasibility as an empty result. Here the solver
  is the parameter \<open>order\<close>: for a model, the sequence of candidate assignments in the order
  the solver explores them. The search visits the candidates once each, calls the callback
  on every candidate that satisfies the model, and ends when the callback asks to stop or
  the candidates are exhausted. The same model gives the same exploration order.
\<close>

fun search :: "cp_model \<Rightarrow> int list list \<Rightarrow> var_array_solutions \<Rightarrow> var_array_solutions \<times> bool" where
  "search m [] cb = (cb, False)"
| "search m (a # cands) cb =
     (if satisfies m a then
        (case on_solution_callback (Value m a) cb of
           (cb', stop) \<Rightarrow> if stop then (cb', True) else search m cands cb')
      else search m cands cb)"

definition SearchForAllSolutions ::
    "(cp_model \<Rightarrow> int list list) \<Rightarrow> cp_model \<Rightarrow> var_array_solutions \<Rightarrow> cp_status \<times> var_array_solutions" where
  "SearchForAllSolutions order m cb =
     (case search m (remdups (order m)) cb of
        (cb', stopped) \<Rightarrow>
          (if stopped then FEASIBLE
           else if list_ex (satisfies m) (order m) then OPTIMAL
           else INFEASIBLE,
           cb'))"

text \<open>A solver that explores every 0/1 assignment, for running the code on small boards.\<close>

definition exhaustive_order :: "cp_model \<Rightarrow> int list list" where
  "exhaustive_order m = List.n_lists (length (int_vars m)) [0, 1]"

text \<open>The first error of a list of results, or all the values.\<close>

fun collect_err :: "(py_error + 'a) list \<Rightarrow> py_error + 'a list" where
  "collect_err [] = Inr []"
| "collect_err (x # xs) =
     (case x of
        Inl e \<Rightarrow> Inl e
      | Inr v \<Rightarrow> (case collect_err xs of Inl e \<Rightarrow> Inl e | Inr vs \<Rightarrow> Inr (v # vs)))"

text \<open>
  \<^verbatim>\<open>_solve\<close>. The comprehension reads \<^verbatim>\<open>raw_solutions[s][i+j]\<close> for the cell in row
  \<^verbatim>\<open>j\<close> and column \<^verbatim>\<open>i\<close>.
\<close>

definition solve :: "(cp_model \<Rightarrow> int list list) \<Rightarrow> int \<Rightarrow> cp_model \<Rightarrow> square list \<Rightarrow> py_error + int list list list" where
  "solve order board_size m var_grid =
     (case SearchForAllSolutions order m (VarArraySolutions_init var_grid 2) of
        (result, solution_printer) \<Rightarrow>
          (let raw_solutions = cb_solutions solution_printer in
           if result = FEASIBLE \<or> result = OPTIMAL then
             collect_err (map (\<lambda>s.
               collect_err (map (\<lambda>j.
                 collect_err (map (\<lambda>i. get_cell raw_solutions s (i + j)) (py_range board_size)))
                 (py_range board_size)))
               [0..<length raw_solutions])
           else Inr []))"

text \<open>
  \<^verbatim>\<open>zip(*board)\<close>: the columns of a board, as many as its shortest row has cells; none for
  an empty board.
\<close>

definition zip_star :: "'a list list \<Rightarrow> 'a list list" where
  "zip_star rows =
     (case rows of
        [] \<Rightarrow> []
      | r # rs \<Rightarrow> map (\<lambda>k. map (\<lambda>row. row ! k) rows) [0..<fold min (map length rs) (length r)])"

text \<open>\<^verbatim>\<open>_is_valid_c3\<close>; \<^verbatim>\<open>len(set(xs))\<close> is the number of distinct elements.\<close>

definition is_valid_c3 :: "'a list list \<Rightarrow> bool" where
  "is_valid_c3 board =
     (length (remdups board) = length board \<and> length (remdups (zip_star board)) = length board)"

text \<open>\<^verbatim>\<open>_get_valid_solutions\<close> for a board size and the current grid.\<close>

definition get_valid_solutions :: "(cp_model \<Rightarrow> int list list) \<Rightarrow> int \<Rightarrow> board \<Rightarrow> py_error + int list list list" where
  "get_valid_solutions order board_size g =
     (case build_model board_size g of
        Inl e \<Rightarrow> Inl e
      | Inr (m, var_grid) \<Rightarrow>
          (case solve order board_size m var_grid of
             Inl e \<Rightarrow> Inl e
           | Inr solutions_without_c3 \<Rightarrow> Inr (filter is_valid_c3 solutions_without_c3)))"

section \<open>generate\_binairo\<close>

text \<open>
  The removal loop \<^verbatim>\<open>while len(solutions) == 0\<close>. Each iteration draws once from the
  random source; \<open>picks\<close> lists the entropy of the draws still to come, and the loop has
  not ended (\<open>None\<close>) when it needs a draw beyond them. The result is the state when the
  loop condition fails: the grid and the variable \<^verbatim>\<open>solutions\<close>.
\<close>

fun removal_loop :: "(cp_model \<Rightarrow> int list list) \<Rightarrow> int \<Rightarrow> nat list \<Rightarrow> binairo \<Rightarrow> int list list list
      \<Rightarrow> (py_error + binairo \<times> int list list list) option" where
  "removal_loop order board_size [] b solutions =
     (if length solutions = 0 then None else Some (Inr (b, solutions)))"
| "removal_loop order board_size (r # picks) b solutions =
     (if length solutions = 0 then
        (let last_solutions = solutions in
         case remove_random_square r b of
           Inl e \<Rightarrow> Some (Inl e)
         | Inr b1 \<Rightarrow>
             (case get_valid_solutions order board_size (grid b1) of
                Inl e \<Rightarrow> Some (Inl e)
              | Inr solutions1 \<Rightarrow>
                  if length solutions1 > 1 then
                    (case cancel_last_remove b1 of
                       Inl e \<Rightarrow> Some (Inl e)
                     | Inr b2 \<Rightarrow> removal_loop order board_size picks b2 last_solutions)
                  else removal_loop order board_size picks b1 solutions1))
      else Some (Inr (b, solutions)))"

text \<open>The part of \<^verbatim>\<open>generate_binairo\<close> up to the end of the loop.\<close>

definition generate_loop_exit :: "(cp_model \<Rightarrow> int list list) \<Rightarrow> int \<Rightarrow> (nat \<Rightarrow> nat) \<Rightarrow> nat list
      \<Rightarrow> (py_error + binairo \<times> int list list list) option" where
  "generate_loop_exit order board_size rnd picks =
     (case Binairo_init board_size None rnd of
        Inl e \<Rightarrow> Some (Inl e)
      | Inr b \<Rightarrow>
          (case get_valid_solutions order board_size (grid b) of
             Inl e \<Rightarrow> Some (Inl e)
           | Inr solutions \<Rightarrow> removal_loop order board_size picks b solutions))"

text \<open>\<^verbatim>\<open>generate_binairo\<close>: the loop, then \<^verbatim>\<open>return self.binairo, solutions[0]\<close>.\<close>

definition generate_binairo :: "(cp_model \<Rightarrow> int list list) \<Rightarrow> int \<Rightarrow> (nat \<Rightarrow> nat) \<Rightarrow> nat list
      \<Rightarrow> (py_error + binairo \<times> int list list) option" where
  "generate_binairo order board_size rnd picks =
     (case generate_loop_exit order board_size rnd picks of
        None \<Rightarrow> None
      | Some (Inl e) \<Rightarrow> Some (Inl e)
      | Some (Inr (b, solutions)) \<Rightarrow>
          (case solutions of
             [] \<Rightarrow> Some (Inl IndexError)
           | s # rest \<Rightarrow> Some (Inr (b, s))))"

section \<open>Notions used to state the properties\<close>

text \<open>A grid or board of \<open>sz\<close> rows with \<open>sz\<close> cells each.\<close>

definition grid_shape :: "int \<Rightarrow> 'a list list \<Rightarrow> bool" where
  "grid_shape sz g = (length g = nat sz \<and> list_all (\<lambda>row. length row = nat sz) g)"

text \<open>
  The constraints the specification lists for a grid, in its own words: a fixed-value
  constraint for every non-empty cell; for every row, every column and every window of
  three consecutive positions, the window's sum above 0 and below 3; for every row and
  every column, the sum of its \<open>size\<close> variables equal to half the size (the integer
  quotient, which is the exact half for the even sizes the specification admits).
\<close>

definition spec_constraints :: "int \<Rightarrow> board \<Rightarrow> constraint set" where
  "spec_constraints sz g =
     {c. \<exists>i j v. i < nat sz \<and> j < nat sz \<and> g ! i ! j = Some v \<and> c = Eq_c (VarE (i, j)) v}
     \<union> {c. \<exists>i j. i < nat sz \<and> j + 2 < nat sz \<and>
             (c = Gt_c (SumE [(i, j), (i, j + 1), (i, j + 2)]) 0
              \<or> c = Lt_c (SumE [(i, j), (i, j + 1), (i, j + 2)]) 3
              \<or> c = Gt_c (SumE [(j, i), (j + 1, i), (j + 2, i)]) 0
              \<or> c = Lt_c (SumE [(j, i), (j + 1, i), (j + 2, i)]) 3)}
     \<union> {c. \<exists>i. i < nat sz \<and>
             (c = Eq_c (SumE (map (\<lambda>j. (i, j)) [0..<nat sz])) (sz div 2)
              \<or> c = Eq_c (SumE (map (\<lambda>j. (j, i)) [0..<nat sz])) (sz div 2))}"

text \<open>
  The constraints each loop of the model builder adds: for one cell of the grid, and for
  one row index and window start.
\<close>

definition fixed_constraint :: "board \<Rightarrow> square \<Rightarrow> constraint list" where
  "fixed_constraint g ij =
     (case g ! fst ij ! snd ij of None \<Rightarrow> [] | Some v \<Rightarrow> [Eq_c (VarE ij) v])"

definition c1_window_constraints :: "int \<Rightarrow> square \<Rightarrow> constraint list" where
  "c1_window_constraints board_size ij =
     [Gt_c (SumE (map (\<lambda>jl. (fst ij, jl)) (py_slice (py_range board_size) (snd ij) (snd ij + 3)))) 0,
      Lt_c (SumE (map (\<lambda>jl. (fst ij, jl)) (py_slice (py_range board_size) (snd ij) (snd ij + 3)))) 3,
      Gt_c (SumE (map (\<lambda>jl. (jl, fst ij)) (py_slice (py_range board_size) (snd ij) (snd ij + 3)))) 0,
      Lt_c (SumE (map (\<lambda>jl. (jl, fst ij)) (py_slice (py_range board_size) (snd ij) (snd ij + 3)))) 3]"

text \<open>Every listed position can be read from the grid.\<close>

definition cells_in_grid :: "'a list list \<Rightarrow> square list \<Rightarrow> bool" where
  "cells_in_grid g ks = list_all (\<lambda>ij. fst ij < length g \<and> snd ij < length (g ! fst ij)) ks"

text \<open>The board \<^verbatim>\<open>_solve\<close> builds from one raw solution.\<close>

definition clean_solution :: "int \<Rightarrow> int list \<Rightarrow> int list list" where
  "clean_solution board_size raw =
     map (\<lambda>j. map (\<lambda>i. raw ! (i + j)) (py_range board_size)) (py_range board_size)"

text \<open>The raw solutions the callback has collected when the search ends.\<close>

definition raw_solutions_of :: "(cp_model \<Rightarrow> int list list) \<Rightarrow> cp_model \<Rightarrow> square list \<Rightarrow> int list list" where
  "raw_solutions_of order m vars =
     map (\<lambda>a. map (Value m a) vars) (take 2 (filter (satisfies m) (remdups (order m))))"

section \<open>Auxiliary facts about lists and grids\<close>

lemma pop_at_Cons_Suc: "pop_at (Suc m) (x # xs) = x # pop_at m xs"
  by (simp add: pop_at_def)

lemma pop_at_Cons_0: "pop_at 0 (x # xs) = xs"
  by (simp add: pop_at_def)

lemma set_pop_at_subset: "set (pop_at k xs) \<subseteq> set xs"
  unfolding pop_at_def using set_take_subset[of k xs] set_drop_subset[of "Suc k" xs] by auto

lemma distinct_pop_at: "distinct xs \<Longrightarrow> distinct (pop_at k xs)"
proof (induction xs arbitrary: k)
  case Nil then show ?case by (simp add: pop_at_def)
next
  case (Cons x xs)
  show ?case
  proof (cases k)
    case 0 with Cons.prems show ?thesis by (simp add: pop_at_Cons_0)
  next
    case (Suc m)
    have "x \<notin> set (pop_at m xs)" using Cons.prems set_pop_at_subset[of m xs] by auto
    moreover have "distinct (pop_at m xs)" using Cons.prems by (intro Cons.IH) simp
    ultimately show ?thesis by (simp add: Suc pop_at_Cons_Suc)
  qed
qed

lemma mem_nonempty_squares:
  "(i, j) \<in> set (nonempty_squares g) \<longleftrightarrow> i < length g \<and> j < length (g ! i) \<and> g ! i ! j \<noteq> None"
  by (auto simp: nonempty_squares_def image_iff)

lemma randint_idx: "0 < n \<Longrightarrow> randint 0 (n - 1) r < n"
  unfolding randint_def by simp

lemma concat_map_Pair: "concat (map (\<lambda>x. map (\<lambda>y. (x, y)) ys) xs) = List.product xs ys"
  by (induction xs) simp_all

lemma set_pop_at: "distinct xs \<Longrightarrow> k < length xs \<Longrightarrow> set (pop_at k xs) = set xs - {xs ! k}"
proof (induction xs arbitrary: k)
  case Nil then show ?case by simp
next
  case (Cons x xs)
  show ?case
  proof (cases k)
    case 0 with Cons.prems show ?thesis by (simp add: pop_at_Cons_0)
  next
    case (Suc m)
    with Cons.prems have "set (pop_at m xs) = set xs - {xs ! m}" by (intro Cons.IH) simp_all
    moreover have "pop_at k (x # xs) = x # pop_at m xs" by (simp add: Suc pop_at_Cons_Suc)
    moreover have "x \<noteq> xs ! m" using Cons.prems Suc by auto
    ultimately show ?thesis by (auto simp: Suc)
  qed
qed

lemma mset_pop_at: "k < length xs \<Longrightarrow> mset (pop_at k xs @ [xs ! k]) = mset xs"
proof -
  assume k: "k < length xs"
  have "mset xs = mset (take k xs @ xs ! k # drop (Suc k) xs)"
    using id_take_nth_drop[OF k] by simp
  then show ?thesis by (simp add: pop_at_def)
qed

lemma length_grid: "length (grid b) = length (row_refs b)"
  by (simp add: grid_def)

lemma nth_grid: "i < length (grid b) \<Longrightarrow> grid b ! i = row_at (row_objects b) (row_refs b ! i)"
  by (simp add: grid_def)

lemma row_in_store:
  "i < length (grid b) \<Longrightarrow> j < length (grid b ! i) \<Longrightarrow> row_refs b ! i < length (row_objects b)"
  by (auto simp: grid_def row_at_def split: if_splits)

lemma row_at_update:
  "row_at (objs[r := row]) r' = (if r' = r \<and> r < length objs then row else row_at objs r')"
  by (simp add: row_at_def)

lemma grid_new_rows: "map (row_at g) [0..<length g] = g"
  by (rule nth_equalityI) (simp_all add: row_at_def)

lemma set_cell_ok:
  "i < length (grid b) \<Longrightarrow> j < length (grid b ! i) \<Longrightarrow>
   set_cell (row_refs b) (row_objects b) i j v =
     Inr ((row_objects b)[row_refs b ! i := (grid b ! i)[j := v]])"
  by (simp add: set_cell_def nth_grid length_grid)

lemma set_cell_fails:
  "\<not> (i < length (grid b) \<and> j < length (grid b ! i)) \<Longrightarrow>
   set_cell (row_refs b) (row_objects b) i j v = Inl IndexError"
  by (auto simp: set_cell_def nth_grid length_grid)

text \<open>The grid after a write: every entry that refers to the written row object changes.\<close>

lemma grid_after_write:
  assumes i: "i < length (grid b)" and j: "j < length (grid b ! i)"
    and refs: "row_refs b' = row_refs b"
    and objs: "row_objects b' = (row_objects b)[row_refs b ! i := (grid b ! i)[j := v]]"
  shows "length (grid b') = length (grid b)"
    and "i' < length (grid b) \<Longrightarrow>
         grid b' ! i' =
           (if row_refs b ! i' = row_refs b ! i then (grid b ! i')[j := v] else grid b ! i')"
proof -
  show l: "length (grid b') = length (grid b)" by (simp add: grid_def refs)
  assume i': "i' < length (grid b)"
  have st: "row_refs b ! i < length (row_objects b)" by (rule row_in_store[OF i j])
  have "grid b' ! i' = row_at (row_objects b') (row_refs b ! i')"
    using i' l nth_grid[of i' b'] by (simp add: refs)
  also have "\<dots> = (if row_refs b ! i' = row_refs b ! i then (grid b ! i)[j := v]
                     else row_at (row_objects b) (row_refs b ! i'))"
    using st by (simp add: objs row_at_update)
  also have "\<dots> = (if row_refs b ! i' = row_refs b ! i then (grid b ! i')[j := v] else grid b ! i')"
    using i i' by (simp add: nth_grid)
  finally show "grid b' ! i' =
      (if row_refs b ! i' = row_refs b ! i then (grid b ! i')[j := v] else grid b ! i')" .
qed

text \<open>With separate row objects a write changes one row of the grid.\<close>

lemma grid_after_write_distinct:
  assumes d: "distinct (row_refs b)"
    and i: "i < length (grid b)" and j: "j < length (grid b ! i)"
    and refs: "row_refs b' = row_refs b"
    and objs: "row_objects b' = (row_objects b)[row_refs b ! i := (grid b ! i)[j := v]]"
  shows "grid b' = (grid b)[i := (grid b ! i)[j := v]]"
proof (rule nth_equalityI)
  show "length (grid b') = length ((grid b)[i := (grid b ! i)[j := v]])"
    using grid_after_write(1)[OF i j refs objs] by simp
next
  fix i' assume "i' < length (grid b')"
  then have i': "i' < length (grid b)" using grid_after_write(1)[OF i j refs objs] by simp
  have "row_refs b ! i' = row_refs b ! i \<longleftrightarrow> i' = i"
    using d i i' by (simp add: nth_eq_iff_index_eq length_grid)
  then show "grid b' ! i' = (grid b)[i := (grid b ! i)[j := v]] ! i'"
    using grid_after_write(2)[OF i j refs objs i'] i' by (auto simp: nth_list_update)
qed

lemma remove_random_square_ok:
  assumes ne: "filled_squares b \<noteq> []" and inb: "squares_in_grid b"
    and k: "k = randint 0 (length (filled_squares b) - 1) r"
    and p: "filled_squares b ! k = (i, j)"
  shows "k < length (filled_squares b)"
    and "i < length (grid b)"
    and "j < length (grid b ! i)"
    and "remove_random_square r b =
       Inr (b\<lparr> row_objects := (row_objects b)[row_refs b ! i := (grid b ! i)[j := None]],
               filled_squares := pop_at k (filled_squares b),
               last_removed := Some (i, j, grid b ! i ! j) \<rparr>)"
proof -
  show kl: "k < length (filled_squares b)"
    unfolding k using ne by (intro randint_idx) simp
  then have "(i, j) \<in> set (filled_squares b)" using p by (metis nth_mem)
  with inb show i: "i < length (grid b)" and j: "j < length (grid b ! i)"
    by (auto simp: squares_in_grid_def list_all_iff)
  show "remove_random_square r b =
       Inr (b\<lparr> row_objects := (row_objects b)[row_refs b ! i := (grid b ! i)[j := None]],
               filled_squares := pop_at k (filled_squares b),
               last_removed := Some (i, j, grid b ! i ! j) \<rparr>)"
    using ne i j p set_cell_ok[OF i j, of None] unfolding k
    by (simp add: remove_random_square_def Let_def get_cell_def)
qed

lemma filled_matches_iff:
  "filled_matches b \<longleftrightarrow>
     (\<forall>i j. (i, j) \<in> set (filled_squares b) \<longleftrightarrow>
        i < length (grid b) \<and> j < length (grid b ! i) \<and> grid b ! i ! j \<noteq> None)"
proof -
  have "filled_matches b \<longleftrightarrow>
      (\<forall>p. p \<in> set (filled_squares b) \<longleftrightarrow> p \<in> set (nonempty_squares (grid b)))"
    by (auto simp: filled_matches_def)
  also have "\<dots> \<longleftrightarrow> (\<forall>i j. (i, j) \<in> set (filled_squares b) \<longleftrightarrow> (i, j) \<in> set (nonempty_squares (grid b)))"
    by simp
  finally show ?thesis by (simp only: mem_nonempty_squares)
qed

lemma filled_matches_in_grid: "filled_matches b \<Longrightarrow> squares_in_grid b"
  by (auto simp: filled_matches_iff squares_in_grid_def list_all_iff)

lemma nth_cell_update:
  assumes "i < length g" and "j < length (g ! i)"
  shows "length (g[i := (g ! i)[j := v]]) = length g"
    and "length (g[i := (g ! i)[j := v]] ! i') = length (g ! i')"
    and "i' < length g \<Longrightarrow> g[i := (g ! i)[j := v]] ! i' ! j' = (if i' = i \<and> j' = j then v else g ! i' ! j')"
  using assms by (auto simp: nth_list_update)

lemma Binairo_init_random:
  assumes "Binairo_init sz None rnd = Inr b"
  shows "grid b = generate_random_grid sz rnd"
    and "row_refs b = [0..<length (generate_random_grid sz rnd)]"
    and "filled_squares b = List.product (py_range sz) (py_range sz)"
  using assms
  by (auto simp: Binairo_init_def Let_def new_rows_def grid_def grid_new_rows concat_map_Pair)

lemma grid_inv_init_random:
  assumes "Binairo_init sz None rnd = Inr b"
  shows "grid_inv b"
  unfolding grid_inv_def filled_matches_iff Binairo_init_random[OF assms]
  by (auto simp: generate_random_grid_def py_range_def distinct_product)

lemma grid_inv_init_dense:
  assumes "dense_square sz (map (row_at objs) refs)" and "distinct refs"
    and "Binairo_init sz (Some (refs, objs)) rnd = Inr b"
  shows "grid_inv b"
proof -
  define g where "g = map (row_at objs) refs"
  have l: "length g = nat sz" and r: "\<And>i. i < nat sz \<Longrightarrow> length (g ! i) = nat sz"
    and c: "\<And>i j. i < nat sz \<Longrightarrow> j < nat sz \<Longrightarrow> g ! i ! j \<noteq> None"
    using assms(1) by (auto simp: dense_square_def list_all_length g_def)
  have b: "grid b = g" "row_refs b = refs"
    "filled_squares b = List.product (py_range sz) (py_range sz)"
    using assms(3) by (auto simp: Binairo_init_def grid_def g_def concat_map_Pair)
  show ?thesis using l r c assms(2)
    by (auto simp: grid_inv_def filled_matches_iff b py_range_def distinct_product)
qed

lemma grid_inv_remove:
  assumes inv: "grid_inv b" and rm: "remove_random_square r b = Inr b1"
  shows "grid_inv b1 \<and> removal_pending b1"
proof -
  have ne: "filled_squares b \<noteq> []" using rm by (auto simp: remove_random_square_def)
  have dr: "distinct (row_refs b)" and d: "distinct (filled_squares b)" and fm: "filled_matches b"
    using inv by (simp_all add: grid_inv_def)
  define k where "k = randint 0 (length (filled_squares b) - 1) r"
  obtain i j where p: "filled_squares b ! k = (i, j)" by (cases "filled_squares b ! k")
  note ok = remove_random_square_ok[OF ne filled_matches_in_grid[OF fm] k_def p]
  have b1: "b1 = b\<lparr> row_objects := (row_objects b)[row_refs b ! i := (grid b ! i)[j := None]],
               filled_squares := pop_at k (filled_squares b),
               last_removed := Some (i, j, grid b ! i ! j) \<rparr>"
    using ok(4) rm by simp
  have rb1: "row_refs b1 = row_refs b" and fb1: "filled_squares b1 = pop_at k (filled_squares b)"
    and lb1: "last_removed b1 = Some (i, j, grid b ! i ! j)"
    and ob1: "row_objects b1 = (row_objects b)[row_refs b ! i := (grid b ! i)[j := None]]"
    by (simp_all add: b1)
  have gb1: "grid b1 = (grid b)[i := (grid b ! i)[j := None]]"
    by (rule grid_after_write_distinct[OF dr ok(2) ok(3) rb1 ob1])
  have mem: "(i, j) \<in> set (filled_squares b)" using ok(1) p by (metis nth_mem)
  then have v: "grid b ! i ! j \<noteq> None" using fm by (simp add: filled_matches_iff)
  have s: "set (pop_at k (filled_squares b)) = set (filled_squares b) - {(i, j)}"
    using set_pop_at[OF d ok(1)] p by simp
  have "filled_matches b1"
    unfolding filled_matches_iff
  proof (intro allI)
    fix i' j'
    show "((i', j') \<in> set (filled_squares b1)) =
          (i' < length (grid b1) \<and> j' < length (grid b1 ! i') \<and> grid b1 ! i' ! j' \<noteq> None)"
      using fm[unfolded filled_matches_iff, rule_format, of i' j']
      by (auto simp: gb1 fb1 s nth_cell_update[OF ok(2) ok(3)] split: if_splits)
  qed
  moreover have "distinct (filled_squares b1)" using d by (simp add: fb1 distinct_pop_at)
  moreover have "removal_pending b1"
    using v ok(2) ok(3) by (simp add: removal_pending_def lb1 gb1 get_cell_def)
  ultimately show ?thesis using dr by (simp add: grid_inv_def rb1)
qed

lemma grid_inv_undo:
  assumes inv: "grid_inv b" and pend: "removal_pending b" and un: "cancel_last_remove b = Inr b2"
  shows "grid_inv b2"
proof -
  have dr: "distinct (row_refs b)" and d: "distinct (filled_squares b)" and fm: "filled_matches b"
    using inv by (simp_all add: grid_inv_def)
  obtain i j v where lr: "last_removed b = Some (i, j, v)" and v: "v \<noteq> None"
    and gc: "get_cell (grid b) i j = Inr None"
    using pend by (auto simp: removal_pending_def split: option.splits)
  have i: "i < length (grid b)" and j: "j < length (grid b ! i)" and e: "grid b ! i ! j = None"
    using gc by (auto simp: get_cell_def split: if_splits)
  have b2: "b2 = b\<lparr> row_objects := (row_objects b)[row_refs b ! i := (grid b ! i)[j := v]],
                     filled_squares := filled_squares b @ [(i, j)] \<rparr>"
    using un lr set_cell_ok[OF i j, of v] by (simp add: cancel_last_remove_def)
  have rb2: "row_refs b2 = row_refs b" and fb2: "filled_squares b2 = filled_squares b @ [(i, j)]"
    and ob2: "row_objects b2 = (row_objects b)[row_refs b ! i := (grid b ! i)[j := v]]"
    by (simp_all add: b2)
  have gb2: "grid b2 = (grid b)[i := (grid b ! i)[j := v]]"
    by (rule grid_after_write_distinct[OF dr i j rb2 ob2])
  have nm: "(i, j) \<notin> set (filled_squares b)" using fm e by (simp add: filled_matches_iff)
  have "filled_matches b2"
    unfolding filled_matches_iff
  proof (intro allI)
    fix i' j'
    show "((i', j') \<in> set (filled_squares b2)) =
          (i' < length (grid b2) \<and> j' < length (grid b2 ! i') \<and> grid b2 ! i' ! j' \<noteq> None)"
      using fm[unfolded filled_matches_iff, rule_format, of i' j'] v i j
      by (auto simp: gb2 fb2 nth_cell_update[OF i j] split: if_splits)
  qed
  moreover have "distinct (filled_squares b2)" using d nm by (simp add: fb2)
  ultimately show ?thesis using dr by (simp add: grid_inv_def rb2)
qed

lemma run_ops_grid_inv:
  "grid_inv b \<Longrightarrow> (p \<longrightarrow> removal_pending b) \<Longrightarrow> undo_follows_remove p ops \<Longrightarrow>
   run_ops ops b = Inr b' \<Longrightarrow> grid_inv b'"
proof (induction ops arbitrary: b p)
  case Nil
  then show ?case by simp
next
  case (Cons x ops)
  show ?case
  proof (cases x)
    case (RemoveRandomCell r)
    with Cons.prems(4) obtain b1 where rm: "remove_random_square r b = Inr b1"
      and rest: "run_ops ops b1 = Inr b'"
      by (auto split: sum.splits)
    from grid_inv_remove[OF Cons.prems(1) rm] Cons.prems(3) RemoveRandomCell rest
    show ?thesis by (intro Cons.IH[of b1 True]) simp_all
  next
    case UndoLastRemoval
    with Cons.prems(4) obtain b2 where un: "cancel_last_remove b = Inr b2"
      and rest: "run_ops ops b2 = Inr b'"
      by (auto split: sum.splits)
    from Cons.prems(2,3) UndoLastRemoval have pend: "removal_pending b"
      and fol: "undo_follows_remove False ops" by simp_all
    from grid_inv_undo[OF Cons.prems(1) pend un] fol rest
    show ?thesis by (intro Cons.IH[of b2 False]) simp_all
  qed
qed

lemma fold_Add:
  "fold (\<lambda>x m. Add (f x) m) xs m = m\<lparr> constraints := constraints m @ map f xs \<rparr>"
  by (induction xs arbitrary: m) (simp_all add: Add_def)

lemma fold_NewIntVar:
  "fold (\<lambda>key m. NewIntVar lb ub key m) ks m = m\<lparr> int_vars := int_vars m @ map (\<lambda>k. (k, lb, ub)) ks \<rparr>"
  by (induction ks arbitrary: m) (simp_all add: NewIntVar_def)

lemma add_c1_window_eq:
  "add_c1_window n ij m = m\<lparr> constraints := constraints m @ c1_window_constraints n ij \<rparr>"
  by (simp add: add_c1_window_def c1_window_constraints_def Add_def Let_def)

lemma fold_add_c1_window:
  "fold (add_c1_window n) ks m =
     m\<lparr> constraints := constraints m @ concat (map (c1_window_constraints n) ks) \<rparr>"
  by (induction ks arbitrary: m) (simp_all add: add_c1_window_eq)

lemma add_initial_values_loop_eq:
  "cells_in_grid g ks \<Longrightarrow>
   add_initial_values_loop g ks m =
     Inr (m\<lparr> constraints := constraints m @ concat (map (fixed_constraint g) ks) \<rparr>)"
proof (induction ks arbitrary: m)
  case Nil
  then show ?case by simp
next
  case (Cons k ks)
  obtain i j where k: "k = (i, j)" by (cases k)
  from Cons.prems have "i < length g" "j < length (g ! i)" "cells_in_grid g ks"
    by (simp_all add: cells_in_grid_def k)
  then show ?case
    by (simp add: k Cons.IH get_cell_def fixed_constraint_def Add_def split: option.splits)
qed

lemma mem_nested_range:
  "(i, j) \<in> set (nested_range n k) \<longleftrightarrow> i < nat n \<and> j < nat k"
  by (auto simp: nested_range_def py_range_def image_iff)

lemma grid_shape_cells: "grid_shape sz g \<Longrightarrow> cells_in_grid g (nested_range sz sz)"
  by (auto simp: grid_shape_def cells_in_grid_def list_all_iff mem_nested_range)

lemma build_model_eq:
  assumes "grid_shape sz g"
  shows "build_model sz g =
     Inr (\<lparr> int_vars = map (\<lambda>k. (k, 0, 1)) (nested_range sz sz),
            constraints =
              concat (map (fixed_constraint g) (nested_range sz sz))
              @ concat (map (c1_window_constraints sz) (nested_range sz (sz - 2)))
              @ map (\<lambda>i. Eq_c (SumE (map (\<lambda>j. (i, j)) (py_range sz))) (sz div 2)) (py_range sz)
              @ map (\<lambda>j. Eq_c (SumE (map (\<lambda>i. (i, j)) (py_range sz))) (sz div 2)) (py_range sz) \<rparr>,
          nested_range sz sz)"
  by (simp add: build_model_def build_var_grid_def fold_NewIntVar add_initial_values_def
        add_initial_values_loop_eq[OF grid_shape_cells[OF assms]] add_constraint_c1_def
        fold_add_c1_window add_constraint_c2_def fold_Add Let_def CpModel_def)

lemma py_slice_window:
  "j + 2 < nat n \<Longrightarrow> py_slice (py_range n) j (j + 3) = [j, j + 1, j + 2]"
proof -
  assume a: "j + 2 < nat n"
  have "[j..<nat n] = j # Suc j # Suc (Suc j) # [Suc (Suc (Suc j))..<nat n]"
    using a by (simp add: upt_conv_Cons)
  then show ?thesis by (simp add: py_slice_def py_range_def drop_upt numeral_3_eq_3)
qed

lemma window_range: "j < nat (n - 2) \<longleftrightarrow> j + 2 < nat n"
  by auto

lemma set_fixed:
  "set (concat (map (fixed_constraint g) (nested_range sz sz))) =
     {c. \<exists>i j v. i < nat sz \<and> j < nat sz \<and> g ! i ! j = Some v \<and> c = Eq_c (VarE (i, j)) v}"
  by (auto simp: fixed_constraint_def mem_nested_range split: option.splits)

lemma set_c1:
  "set (concat (map (c1_window_constraints sz) (nested_range sz (sz - 2)))) =
     {c. \<exists>i j. i < nat sz \<and> j + 2 < nat sz \<and>
             (c = Gt_c (SumE [(i, j), (i, j + 1), (i, j + 2)]) 0
              \<or> c = Lt_c (SumE [(i, j), (i, j + 1), (i, j + 2)]) 3
              \<or> c = Gt_c (SumE [(j, i), (j + 1, i), (j + 2, i)]) 0
              \<or> c = Lt_c (SumE [(j, i), (j + 1, i), (j + 2, i)]) 3)}"
  (is "?L = ?R")
proof (intro set_eqI iffI)
  fix c assume "c \<in> ?L"
  then obtain i j where ij: "(i, j) \<in> set (nested_range sz (sz - 2))"
    and c: "c \<in> set (c1_window_constraints sz (i, j))" by auto
  from ij have i: "i < nat sz" and j: "j + 2 < nat sz" by (auto simp: mem_nested_range)
  from c show "c \<in> ?R"
    unfolding c1_window_constraints_def using i j
    by (simp add: py_slice_window[OF j]) blast
next
  fix c assume "c \<in> ?R"
  then obtain i j where i: "i < nat sz" and j: "j + 2 < nat sz"
    and c: "c = Gt_c (SumE [(i, j), (i, j + 1), (i, j + 2)]) 0
              \<or> c = Lt_c (SumE [(i, j), (i, j + 1), (i, j + 2)]) 3
              \<or> c = Gt_c (SumE [(j, i), (j + 1, i), (j + 2, i)]) 0
              \<or> c = Lt_c (SumE [(j, i), (j + 1, i), (j + 2, i)]) 3" by blast
  have ij: "(i, j) \<in> set (nested_range sz (sz - 2))"
    using i j by (auto simp: mem_nested_range)
  have "c \<in> set (c1_window_constraints sz (i, j))"
    using c by (auto simp: c1_window_constraints_def py_slice_window[OF j])
  with ij show "c \<in> ?L" by auto
qed

lemma set_c2:
  "set (map (\<lambda>i. Eq_c (SumE (map (\<lambda>j. (i, j)) (py_range sz))) (sz div 2)) (py_range sz)
        @ map (\<lambda>j. Eq_c (SumE (map (\<lambda>i. (i, j)) (py_range sz))) (sz div 2)) (py_range sz)) =
     {c. \<exists>i. i < nat sz \<and>
             (c = Eq_c (SumE (map (\<lambda>j. (i, j)) [0..<nat sz])) (sz div 2)
              \<or> c = Eq_c (SumE (map (\<lambda>j. (j, i)) [0..<nat sz])) (sz div 2))}"
  by (auto simp: py_range_def)

lemma search_solutions:
  "solution_count cb \<le> 1 \<Longrightarrow>
   cb_solutions (fst (search m cands cb)) =
     cb_solutions cb @ map (\<lambda>a. map (Value m a) (cb_variables cb))
                          (take (2 - solution_count cb) (filter (satisfies m) cands))"
proof (induction cands arbitrary: cb)
  case Nil
  then show ?case by simp
next
  case (Cons a cands)
  show ?case
  proof (cases "satisfies m a")
    case False
    then show ?thesis using Cons by simp
  next
    case True
    define cb' where "cb' = fst (on_solution_callback (Value m a) cb)"
    have cb': "on_solution_callback (Value m a) cb = (cb', solution_count cb \<ge> 1)"
      "solution_count cb' = solution_count cb + 1"
      "cb_variables cb' = cb_variables cb"
      "cb_solutions cb' = cb_solutions cb @ [map (Value m a) (cb_variables cb)]"
      by (auto simp: cb'_def on_solution_callback_def Let_def)
    show ?thesis
    proof (cases "solution_count cb \<ge> 1")
      case True
      with Cons.prems have "solution_count cb = 1" by simp
      then show ?thesis using \<open>satisfies m a\<close> cb' by simp
    next
      case False
      then have z: "solution_count cb = 0" by simp
      then have "solution_count cb' \<le> 1" using cb' by simp
      from Cons.IH[OF this] show ?thesis
        using \<open>satisfies m a\<close> cb' z by (simp add: numeral_2_eq_2)
    qed
  qed
qed

lemma search_not_stopped:
  "\<not> snd (search m cands cb) \<Longrightarrow> solution_count cb \<le> 1 \<Longrightarrow> \<not> list_ex (satisfies m) cands \<Longrightarrow>
   cb_solutions (fst (search m cands cb)) = cb_solutions cb"
  by (simp add: search_solutions list_ex_iff filter_False)

lemma SearchForAllSolutions_solutions:
  "cb_solutions (snd (SearchForAllSolutions order m (VarArraySolutions_init vars 2))) =
     raw_solutions_of order m vars"
proof -
  have "cb_solutions (fst (search m (remdups (order m)) (VarArraySolutions_init vars 2))) =
     raw_solutions_of order m vars"
    by (subst search_solutions) (simp_all add: VarArraySolutions_init_def raw_solutions_of_def)
  moreover obtain cb' st where "search m (remdups (order m)) (VarArraySolutions_init vars 2) = (cb', st)"
    by (cases "search m (remdups (order m)) (VarArraySolutions_init vars 2)")
  ultimately show ?thesis
    by (simp add: SearchForAllSolutions_def)
qed

lemma SearchForAllSolutions_infeasible:
  "fst (SearchForAllSolutions order m (VarArraySolutions_init vars 2)) \<noteq> FEASIBLE \<Longrightarrow>
   fst (SearchForAllSolutions order m (VarArraySolutions_init vars 2)) \<noteq> OPTIMAL \<Longrightarrow>
   raw_solutions_of order m vars = []"
  by (auto simp: SearchForAllSolutions_def raw_solutions_of_def list_ex_iff filter_empty_conv
        split: prod.splits if_splits)

lemma collect_err_Inr:
  "(\<And>x. x \<in> set xs \<Longrightarrow> f x = Inr (h x)) \<Longrightarrow> collect_err (map f xs) = Inr (map h xs)"
  by (induction xs) simp_all

lemma index_sum_bound:
  fixes i j n :: nat
  assumes "i < n" and "j < n"
  shows "i + j < n * n"
proof (cases "n = 1")
  case True
  with assms show ?thesis by simp
next
  case False
  with assms have "2 \<le> n" by simp
  then have "2 * n \<le> n * n" by (intro mult_le_mono) simp_all
  moreover have "i + j < 2 * n" using assms by linarith
  ultimately show ?thesis by linarith
qed

lemma length_nested_range: "length (nested_range n k) = nat n * nat k"
  by (simp add: nested_range_def py_range_def length_concat comp_def sum_list_triv)

lemma length_raw_solution:
  "raw \<in> set (raw_solutions_of order m vars) \<Longrightarrow> length raw = length vars"
  by (auto simp: raw_solutions_of_def)


lemma solve_eq:
  "solve order sz m (nested_range sz sz) =
     Inr (map (clean_solution sz) (raw_solutions_of order m (nested_range sz sz)))"
proof -
  define raws where "raws = raw_solutions_of order m (nested_range sz sz)"
  have cell: "get_cell raws s (i + j) = Inr (raws ! s ! (i + j))"
    if "s < length raws" "i < nat sz" "j < nat sz" for s i j
  proof -
    have "length (raws ! s) = nat sz * nat sz"
      using length_raw_solution[of "raws ! s" order m "nested_range sz sz"] that(1)
      by (simp add: raws_def length_nested_range)
    with index_sum_bound[OF that(2,3)] that(1) show ?thesis by (simp add: get_cell_def)
  qed
  have row: "collect_err (map (\<lambda>i. get_cell raws s (i + j)) (py_range sz)) =
      Inr (map (\<lambda>i. raws ! s ! (i + j)) (py_range sz))"
    if "s < length raws" "j < nat sz" for s j
    using that by (intro collect_err_Inr cell) (simp_all add: py_range_def)
  have brd: "collect_err (map (\<lambda>j. collect_err (map (\<lambda>i. get_cell raws s (i + j)) (py_range sz)))
        (py_range sz)) = Inr (clean_solution sz (raws ! s))"
    if "s < length raws" for s
    unfolding clean_solution_def
    using that by (intro collect_err_Inr row) (simp_all add: py_range_def)
  have all: "collect_err (map (\<lambda>s. collect_err (map (\<lambda>j. collect_err
        (map (\<lambda>i. get_cell raws s (i + j)) (py_range sz))) (py_range sz))) [0..<length raws]) =
      Inr (map (\<lambda>s. clean_solution sz (raws ! s)) [0..<length raws])"
    by (intro collect_err_Inr brd) simp
  have nth: "map (\<lambda>s. clean_solution sz (raws ! s)) [0..<length raws] = map (clean_solution sz) raws"
    by (rule nth_equalityI) simp_all
  obtain result printer where sf:
    "SearchForAllSolutions order m (VarArraySolutions_init (nested_range sz sz) 2) = (result, printer)"
    by (cases "SearchForAllSolutions order m (VarArraySolutions_init (nested_range sz sz) 2)")
  have raw: "cb_solutions printer = raws"
    using SearchForAllSolutions_solutions[of order m "nested_range sz sz"] sf by (simp add: raws_def)
  show ?thesis
  proof (cases "result = FEASIBLE \<or> result = OPTIMAL")
    case True
    then show ?thesis
      unfolding solve_def sf raws_def[symmetric] using all nth by (simp add: raw Let_def)
  next
    case False
    then have "raws = []"
      using SearchForAllSolutions_infeasible[of order m "nested_range sz sz"] sf by (simp add: raws_def)
    with False show ?thesis
      unfolding solve_def sf raws_def[symmetric] by (simp add: raw Let_def)
  qed
qed






lemma build_model_vars: "build_model sz g = Inr (m, vars) \<Longrightarrow> vars = nested_range sz sz"
  by (auto simp: build_model_def build_var_grid_def split: sum.splits)

lemma get_valid_solutions_eq:
  assumes "build_model sz g = Inr (m, vars)"
  shows "get_valid_solutions order sz g =
     Inr (filter is_valid_c3 (map (clean_solution sz) (raw_solutions_of order m vars)))"
  using assms build_model_vars[OF assms]
  by (simp add: get_valid_solutions_def solve_eq)



lemma distinct_nested_range: "distinct (nested_range n k)"
  by (simp add: nested_range_def concat_map_Pair distinct_product py_range_def)

lemma Value_fixed:
  assumes sat: "satisfies m a" and c: "Eq_c (VarE k) v \<in> set (constraints m)"
  shows "Value m a k = v"
  using sat c by (auto simp: satisfies_def list_all_iff)

lemma satisfies_length: "satisfies m a \<Longrightarrow> length a = length (int_vars m)"
  by (auto simp: satisfies_def dest: list_all2_lengthD)

lemma dense_fixed_all:
  assumes d: "dense_square sz g" and bm: "build_model sz g = Inr (m, vars)"
    and k: "k \<in> set (nested_range sz sz)"
  shows "\<exists>v. Eq_c (VarE k) v \<in> set (constraints m)"
proof -
  obtain i j where ij: "k = (i, j)" by (cases k)
  from k have i: "i < nat sz" and j: "j < nat sz" by (simp_all add: ij mem_nested_range)
  from d have s: "grid_shape sz g" by (auto simp: dense_square_def grid_shape_def list_all_iff)
  from d i j have "g ! i ! j \<noteq> None"
    by (auto simp: dense_square_def list_all_length)
  then obtain v where v: "g ! i ! j = Some v" by auto
  have h: "Eq_c (VarE (i, j)) v \<in> set (concat (map (fixed_constraint g) (nested_range sz sz)))"
    unfolding set_fixed using i j v by blast
  have "set (concat (map (fixed_constraint g) (nested_range sz sz))) \<subseteq> set (constraints m)"
    using bm build_model_eq[OF s] by auto
  with h show ?thesis unfolding ij by blast
qed

lemma dense_unique:
  assumes d: "dense_square sz g" and bm: "build_model sz g = Inr (m, vars)"
    and a: "satisfies m a" and a': "satisfies m a'"
  shows "a = a'"
proof -
  from d have s: "grid_shape sz g" by (auto simp: dense_square_def grid_shape_def list_all_iff)
  have keys: "map fst (int_vars m) = nested_range sz sz"
    using bm build_model_eq[OF s] by (auto simp: comp_def)
  have la: "length a = length (nested_range sz sz)" and la': "length a' = length (nested_range sz sz)"
    using satisfies_length[OF a] satisfies_length[OF a'] keys by (metis length_map)+
  have "map_of (zip (nested_range sz sz) a) = map_of (zip (nested_range sz sz) a')"
  proof
    fix k
    show "map_of (zip (nested_range sz sz) a) k = map_of (zip (nested_range sz sz) a') k"
    proof (cases "k \<in> set (nested_range sz sz)")
      case True
      from dense_fixed_all[OF d bm True] obtain v where v: "Eq_c (VarE k) v \<in> set (constraints m)" ..
      obtain x where x: "map_of (zip (nested_range sz sz) a) k = Some x"
        using True map_of_zip_is_Some[OF la[symmetric], of k] by auto
      obtain x' where x': "map_of (zip (nested_range sz sz) a') k = Some x'"
        using True map_of_zip_is_Some[OF la'[symmetric], of k] by auto
      have "x = v" using Value_fixed[OF a v] x by (simp add: Value_def keys)
      moreover have "x' = v" using Value_fixed[OF a' v] x' by (simp add: Value_def keys)
      ultimately show ?thesis using x x' by simp
    next
      case False
      then show ?thesis
        using map_of_zip_is_None[OF la[symmetric], of k]
          map_of_zip_is_None[OF la'[symmetric], of k] by simp
    qed
  qed
  then show ?thesis
    using map_of_zip_inject[of a "nested_range sz sz" a'] la la' distinct_nested_range by simp
qed

lemma distinct_all_equal:
  "distinct xs \<Longrightarrow> (\<And>x y. x \<in> set xs \<Longrightarrow> y \<in> set xs \<Longrightarrow> x = y) \<Longrightarrow> length xs \<le> 1"
proof (cases xs)
  case Nil
  then show ?thesis by simp
next
  case (Cons x ys)
  assume d: "distinct xs" and e: "\<And>x y. x \<in> set xs \<Longrightarrow> y \<in> set xs \<Longrightarrow> x = y"
  have "ys = []"
  proof (cases ys)
    case Nil
    then show ?thesis .
  next
    case (Cons y zs)
    with \<open>xs = x # ys\<close> d have "x \<noteq> y" by auto
    moreover have "x = y" using e[of x y] Cons \<open>xs = x # ys\<close> by simp
    ultimately show ?thesis by simp
  qed
  with Cons show ?thesis by simp
qed

lemma dense_solutions_le1:
  assumes d: "dense_square sz g" and gv: "get_valid_solutions order sz g = Inr sols"
  shows "length sols \<le> 1"
proof -
  from d have s: "grid_shape sz g" by (auto simp: dense_square_def grid_shape_def list_all_iff)
  obtain m where bm: "build_model sz g = Inr (m, nested_range sz sz)"
    using build_model_eq[OF s] by blast
  have "length (filter (satisfies m) (remdups (order m))) \<le> 1"
    by (rule distinct_all_equal) (auto intro: dense_unique[OF d bm])
  then have r: "length (raw_solutions_of order m (nested_range sz sz)) \<le> 1"
    by (simp add: raw_solutions_of_def)
  have eq: "sols = filter is_valid_c3 (map (clean_solution sz)
      (raw_solutions_of order m (nested_range sz sz)))"
    using gv get_valid_solutions_eq[OF bm, of order] by simp
  have "length sols \<le> length (map (clean_solution sz) (raw_solutions_of order m (nested_range sz sz)))"
    unfolding eq by (rule length_filter_le)
  also have "\<dots> = length (raw_solutions_of order m (nested_range sz sz))" by simp
  finally show ?thesis using r by linarith
qed

lemma Binairo_init_dense: "Binairo_init sz None rnd = Inr b \<Longrightarrow> dense_square sz (grid b)"
  unfolding Binairo_init_random(1)
  by (auto simp: generate_random_grid_def dense_square_def py_range_def list_all_iff)

lemma removal_loop_exit:
  "removal_loop order sz picks b sols = Some (Inr (b', sols')) \<Longrightarrow> length sols \<le> 1 \<Longrightarrow>
   (sols \<noteq> [] \<longrightarrow> get_valid_solutions order sz (grid b) = Inr sols) \<Longrightarrow>
   length sols' = 1 \<and> get_valid_solutions order sz (grid b') = Inr sols'"
proof (induction picks arbitrary: b sols)
  case Nil
  then show ?case by (cases sols) (auto split: if_splits)
next
  case (Cons r picks)
  show ?case
  proof (cases "sols = []")
    case False
    with Cons.prems show ?thesis by (cases sols) (auto split: if_splits)
  next
    case True
    from Cons.prems(1) True obtain b1 where rm: "remove_random_square r b = Inr b1"
      by (auto split: sum.splits)
    from Cons.prems(1) True rm obtain sols1 where
      gv: "get_valid_solutions order sz (grid b1) = Inr sols1"
      by (auto split: sum.splits)
    show ?thesis
    proof (cases "length sols1 > 1")
      case True
      from Cons.prems(1) \<open>sols = []\<close> rm gv True obtain b2 where
        un: "cancel_last_remove b1 = Inr b2"
        and rec: "removal_loop order sz picks b2 [] = Some (Inr (b', sols'))"
        by (auto split: sum.splits)
      from Cons.IH[OF rec] show ?thesis by simp
    next
      case False
      with Cons.prems(1) \<open>sols = []\<close> rm gv
      have rec: "removal_loop order sz picks b1 sols1 = Some (Inr (b', sols'))"
        by simp
      from Cons.IH[OF rec] False gv show ?thesis by simp
    qed
  qed
qed

lemma generate_loop_exit_one:
  assumes "generate_loop_exit order sz rnd picks = Some (Inr (b, sols))"
  shows "length sols = 1 \<and> get_valid_solutions order sz (grid b) = Inr sols"
proof -
  obtain b0 where b0: "Binairo_init sz None rnd = Inr b0"
    by (simp add: Binairo_init_def Let_def)
  from assms b0 obtain sols0 where gv: "get_valid_solutions order sz (grid b0) = Inr sols0"
    and lp: "removal_loop order sz picks b0 sols0 = Some (Inr (b, sols))"
    by (auto simp: generate_loop_exit_def split: sum.splits)
  from dense_solutions_le1[OF Binairo_init_dense[OF b0] gv] have "length sols0 \<le> 1" .
  from removal_loop_exit[OF lp this] gv show ?thesis by simp
qed

section \<open>Properties of the grid\<close>

text \<open>
  C5. Claim: without supplied initial values every cell is drawn independently, so that for
  some draw of the randomness a row contains both a 0 and a 1. The code draws once per row
  and repeats that value over the whole row: for no entropy does a row of the generated
  grid hold both values.
\<close>

theorem generate_random_grid_rows_are_copies:
  "\<not> (\<exists>rnd row. row \<in> set (generate_random_grid sz rnd) \<and> Some 0 \<in> set row \<and> Some 1 \<in> set row)"
  by (auto simp: generate_random_grid_def)

text \<open>
  C8 as stated (construction fails for a size that is odd or not positive) is false on the
  code: sizes 3 and 0 both construct a grid.
\<close>

theorem Binairo_init_odd_and_zero_size_succeed:
  "Binairo_init 3 None (draws_of [0, 1, 0]) =
     Inr \<lparr> size_b = 3,
           row_refs = [0, 1, 2], row_objects = [[Some 0, Some 0, Some 0], [Some 1, Some 1, Some 1], [Some 0, Some 0, Some 0]],
           filled_squares = [(0, 0), (0, 1), (0, 2), (1, 0), (1, 1), (1, 2), (2, 0), (2, 1), (2, 2)],
           last_removed = None \<rparr>
   \<and> Binairo_init 0 None (draws_of []) =
     Inr \<lparr> size_b = 0, row_refs = [], row_objects = [], filled_squares = [], last_removed = None \<rparr>"
  by code_simp

text \<open>
  C8, amended: grid construction checks nothing about the size. For every integer size,
  with or without a supplied grid, it succeeds; the new grid records the size, has no
  pending removal, and lists every position of \<^verbatim>\<open>range(size) x range(size)\<close> as filled.
\<close>

theorem Binairo_init_never_fails:
  "\<exists>b. Binairo_init sz initial_grid rnd = Inr b \<and> size_b b = sz \<and> last_removed b = None
       \<and> filled_squares b = List.product (py_range sz) (py_range sz)"
  by (simp add: Binairo_init_def Let_def concat_map_Pair)

text \<open>
  C9 as stated (an undo directly after an undo fails, and an undo clears the record) is
  false on the code: after one removal, a second undo in a row succeeds, appends the
  position once more and leaves the record in place.
\<close>

theorem second_undo_succeeds:
  "run_from_new 2 None (draws_of [0, 1]) [RemoveRandomCell 0, UndoLastRemoval, UndoLastRemoval] =
     Inr \<lparr> size_b = 2, row_refs = [0, 1], row_objects = [[Some 0, Some 0], [Some 1, Some 1]],
           filled_squares = [(0, 1), (1, 0), (1, 1), (0, 0), (0, 0)],
           last_removed = Some (0, 0, Some 0) \<rparr>"
  by code_simp

text \<open>
  C9, amended: the undo fails (TypeError) when no removal was ever recorded, as on a new
  grid. With a record whose position lies inside the grid it succeeds: it writes the
  recorded value back at the recorded position, appends the position to the filled list,
  and keeps the record as it was (so the next undo succeeds again).
\<close>

theorem cancel_last_remove_behaviour:
  "(last_removed b = None \<longrightarrow> cancel_last_remove b = Inl TypeError)
   \<and> (\<forall>i j v. last_removed b = Some (i, j, v) \<and> i < length (grid b) \<and> j < length (grid b ! i) \<longrightarrow>
        (\<exists>b'. cancel_last_remove b = Inr b'
           \<and> b' = b\<lparr> row_objects := (row_objects b)[row_refs b ! i := (grid b ! i)[j := v]],
                      filled_squares := filled_squares b @ [(i, j)] \<rparr>
           \<and> grid b' ! i ! j = v
           \<and> (distinct (row_refs b) \<longrightarrow> grid b' = (grid b)[i := (grid b ! i)[j := v]])
           \<and> filled_squares b' = filled_squares b @ [(i, j)]
           \<and> last_removed b' = Some (i, j, v)))"
proof (intro conjI allI impI)
  assume "last_removed b = None"
  then show "cancel_last_remove b = Inl TypeError" by (simp add: cancel_last_remove_def)
next
  fix i j v
  assume a: "last_removed b = Some (i, j, v) \<and> i < length (grid b) \<and> j < length (grid b ! i)"
  then have lr: "last_removed b = Some (i, j, v)" and i: "i < length (grid b)"
    and j: "j < length (grid b ! i)" by simp_all
  define b' where "b' = b\<lparr> row_objects := (row_objects b)[row_refs b ! i := (grid b ! i)[j := v]],
                      filled_squares := filled_squares b @ [(i, j)] \<rparr>"
  have rb: "row_refs b' = row_refs b"
    and ob: "row_objects b' = (row_objects b)[row_refs b ! i := (grid b ! i)[j := v]]"
    by (simp_all add: b'_def)
  have 1: "cancel_last_remove b = Inr b'"
    using lr set_cell_ok[OF i j, of v] by (simp add: cancel_last_remove_def b'_def)
  have 2: "grid b' ! i ! j = v"
    using grid_after_write(2)[OF i j rb ob i] j by simp
  have 3: "distinct (row_refs b) \<longrightarrow> grid b' = (grid b)[i := (grid b ! i)[j := v]]"
    using grid_after_write_distinct[OF _ i j rb ob] by blast
  have 4: "filled_squares b' = filled_squares b @ [(i, j)]" "last_removed b' = Some (i, j, v)"
    using lr by (simp_all add: b'_def)
  show "\<exists>b'. cancel_last_remove b = Inr b'
           \<and> b' = b\<lparr> row_objects := (row_objects b)[row_refs b ! i := (grid b ! i)[j := v]],
                      filled_squares := filled_squares b @ [(i, j)] \<rparr>
           \<and> grid b' ! i ! j = v
           \<and> (distinct (row_refs b) \<longrightarrow> grid b' = (grid b)[i := (grid b ! i)[j := v]])
           \<and> filled_squares b' = filled_squares b @ [(i, j)]
           \<and> last_removed b' = Some (i, j, v)"
    using 1 2 3 4 by (intro exI[of _ b']) (simp add: b'_def)
qed

theorem cancel_last_remove_behaviour_witness:
  "cancel_last_remove \<lparr> size_b = 2, row_refs = [0, 1], row_objects = [[None, Some 0], [Some 1, Some 1]],
        filled_squares = [(0, 1), (1, 0), (1, 1)], last_removed = None \<rparr> = Inl TypeError
   \<and> cancel_last_remove \<lparr> size_b = 2, row_refs = [0, 1], row_objects = [[None, Some 0], [Some 1, Some 1]],
        filled_squares = [(0, 1), (1, 0), (1, 1)], last_removed = Some (0, 0, Some 0) \<rparr> =
       Inr \<lparr> size_b = 2, row_refs = [0, 1], row_objects = [[Some 0, Some 0], [Some 1, Some 1]],
        filled_squares = [(0, 1), (1, 0), (1, 1), (0, 0)], last_removed = Some (0, 0, Some 0) \<rparr>"
  using cancel_last_remove_behaviour [of "\<lparr> size_b = 2, row_refs = [0, 1], row_objects = [[None, Some 0], [Some 1, Some 1]],
        filled_squares = [(0, 1), (1, 0), (1, 1)], last_removed = None \<rparr>"]
    cancel_last_remove_behaviour [of "\<lparr> size_b = 2, row_refs = [0, 1], row_objects = [[None, Some 0], [Some 1, Some 1]],
        filled_squares = [(0, 1), (1, 0), (1, 1)], last_removed = Some (0, 0, Some 0) \<rparr>"]
  by (simp add: grid_def row_at_def)

text \<open>
  C7 as stated (removal followed by undo gives back an identical state, the filled list
  included) is false on the code: the removed position comes back at the end of the filled
  list, and the removal record stays set.
\<close>

theorem remove_then_undo_reorders_filled:
  "run_from_new 2 None (draws_of [0, 1]) [] =
     Inr \<lparr> size_b = 2, row_refs = [0, 1], row_objects = [[Some 0, Some 0], [Some 1, Some 1]],
           filled_squares = [(0, 0), (0, 1), (1, 0), (1, 1)], last_removed = None \<rparr>
   \<and> run_from_new 2 None (draws_of [0, 1]) [RemoveRandomCell 0, UndoLastRemoval] =
     Inr \<lparr> size_b = 2, row_refs = [0, 1], row_objects = [[Some 0, Some 0], [Some 1, Some 1]],
           filled_squares = [(0, 1), (1, 0), (1, 1), (0, 0)],
           last_removed = Some (0, 0, Some 0) \<rparr>"
  by code_simp

text \<open>
  C7, amended: on a grid with at least one filled position, all of them inside the grid,
  a removal followed by an undo both succeed and restore every cell value and the size;
  the filled list holds the same positions as before (as a multiset), the removed one
  moved to the end; the removal record stays as the removal set it.
\<close>

theorem remove_then_undo_restores_cells:
  assumes "filled_squares b \<noteq> []" and "squares_in_grid b"
  shows "\<exists>b1 b2. remove_random_square r b = Inr b1 \<and> cancel_last_remove b1 = Inr b2
           \<and> grid b2 = grid b \<and> size_b b2 = size_b b
           \<and> row_refs b2 = row_refs b \<and> row_objects b2 = row_objects b
           \<and> filled_squares b2 =
                 pop_at (randint 0 (length (filled_squares b) - 1) r) (filled_squares b)
                 @ [filled_squares b ! randint 0 (length (filled_squares b) - 1) r]
           \<and> mset (filled_squares b2) = mset (filled_squares b)
           \<and> last_removed b2 = last_removed b1 \<and> last_removed b1 \<noteq> None"
proof -
  define k where "k = randint 0 (length (filled_squares b) - 1) r"
  obtain i j where p: "filled_squares b ! k = (i, j)" by (cases "filled_squares b ! k")
  define b1 where "b1 = b\<lparr> row_objects := (row_objects b)[row_refs b ! i := (grid b ! i)[j := None]],
               filled_squares := pop_at k (filled_squares b),
               last_removed := Some (i, j, grid b ! i ! j) \<rparr>"
  note r = remove_random_square_ok[OF assms k_def p]
  have 1: "remove_random_square r b = Inr b1" using r(4) by (simp add: b1_def)
  have rb1: "row_refs b1 = row_refs b"
    and ob1: "row_objects b1 = (row_objects b)[row_refs b ! i := (grid b ! i)[j := None]]"
    by (simp_all add: b1_def)
  have i1: "i < length (grid b1)" using grid_after_write(1)[OF r(2) r(3) rb1 ob1] r(2) by simp
  have g1: "grid b1 ! i = (grid b ! i)[j := None]"
    using grid_after_write(2)[OF r(2) r(3) rb1 ob1 r(2)] by simp
  have j1: "j < length (grid b1 ! i)" using r(3) by (simp add: g1)
  have st: "row_refs b ! i < length (row_objects b)" by (rule row_in_store[OF r(2) r(3)])
  have row: "grid b ! i = row_objects b ! (row_refs b ! i)"
    using nth_grid[OF r(2)] st by (simp add: row_at_def)
  have restored: "(row_objects b1)[row_refs b1 ! i := (grid b1 ! i)[j := grid b ! i ! j]] = row_objects b"
    by (simp add: rb1 ob1 g1 row)
  have 2: "cancel_last_remove b1 =
      Inr (b1\<lparr> row_objects := row_objects b, filled_squares := filled_squares b1 @ [(i, j)] \<rparr>)"
    using set_cell_ok[OF i1 j1, of "grid b ! i ! j"] restored
    by (simp add: cancel_last_remove_def b1_def)
  have 3: "mset (pop_at k (filled_squares b) @ [(i, j)]) = mset (filled_squares b)"
    using mset_pop_at[OF r(1)] p by simp
  show ?thesis
    unfolding k_def[symmetric] p
    by (intro exI[of _ b1]
          exI[of _ "b1\<lparr> row_objects := row_objects b, filled_squares := filled_squares b1 @ [(i, j)] \<rparr>"]
          conjI 1 2) (simp_all add: b1_def grid_def 3[simplified])
qed

theorem remove_then_undo_restores_cells_witness:
  "filled_squares \<lparr> size_b = 2, row_refs = [0, 1], row_objects = [[Some 0, Some 0], [Some 1, Some 1]],
        filled_squares = [(0, 0), (0, 1), (1, 0), (1, 1)], last_removed = None \<rparr> \<noteq> []
   \<and> squares_in_grid \<lparr> size_b = 2, row_refs = [0, 1], row_objects = [[Some 0, Some 0], [Some 1, Some 1]],
        filled_squares = [(0, 0), (0, 1), (1, 0), (1, 1)], last_removed = None \<rparr>
   \<and> remove_random_square 0 \<lparr> size_b = 2, row_refs = [0, 1], row_objects = [[Some 0, Some 0], [Some 1, Some 1]],
        filled_squares = [(0, 0), (0, 1), (1, 0), (1, 1)], last_removed = None \<rparr> =
     Inr \<lparr> size_b = 2, row_refs = [0, 1], row_objects = [[None, Some 0], [Some 1, Some 1]],
        filled_squares = [(0, 1), (1, 0), (1, 1)], last_removed = Some (0, 0, Some 0) \<rparr>
   \<and> cancel_last_remove \<lparr> size_b = 2, row_refs = [0, 1], row_objects = [[None, Some 0], [Some 1, Some 1]],
        filled_squares = [(0, 1), (1, 0), (1, 1)], last_removed = Some (0, 0, Some 0) \<rparr> =
     Inr \<lparr> size_b = 2, row_refs = [0, 1], row_objects = [[Some 0, Some 0], [Some 1, Some 1]],
        filled_squares = [(0, 1), (1, 0), (1, 1), (0, 0)], last_removed = Some (0, 0, Some 0) \<rparr>"
  using remove_then_undo_restores_cells [of "\<lparr> size_b = 2, row_refs = [0, 1], row_objects = [[Some 0, Some 0], [Some 1, Some 1]],
        filled_squares = [(0, 0), (0, 1), (1, 0), (1, 1)], last_removed = None \<rparr>" 0]
  by (simp add: squares_in_grid_def remove_random_square_def cancel_last_remove_def randint_def
        get_cell_def set_cell_def pop_at_def grid_def row_at_def)

text \<open>
  C6 as stated is false on the code in three ways: after a removal and two undos the filled
  list holds the position twice, so the next removal of it leaves an empty cell listed as
  filled; a supplied grid with an empty cell has that cell listed as filled; and in a
  supplied grid without empty cell whose two entries are one row object, a removal in the
  first row empties the same cell of the second row, which stays listed as filled.
\<close>

theorem filled_matches_broken:
  "run_from_new 2 None (draws_of [0, 1])
       [RemoveRandomCell 0, UndoLastRemoval, UndoLastRemoval, RemoveRandomCell 3] =
     Inr \<lparr> size_b = 2, row_refs = [0, 1], row_objects = [[None, Some 0], [Some 1, Some 1]],
           filled_squares = [(0, 1), (1, 0), (1, 1), (0, 0)],
           last_removed = Some (0, 0, Some 0) \<rparr>
   \<and> \<not> filled_matches \<lparr> size_b = 2, row_refs = [0, 1], row_objects = [[None, Some 0], [Some 1, Some 1]],
           filled_squares = [(0, 1), (1, 0), (1, 1), (0, 0)],
           last_removed = Some (0, 0, Some 0) \<rparr>
   \<and> Binairo_init 2 (Some ([0, 1], [[None, Some 0], [Some 1, Some 0]])) (draws_of []) =
     Inr \<lparr> size_b = 2, row_refs = [0, 1], row_objects = [[None, Some 0], [Some 1, Some 0]],
           filled_squares = [(0, 0), (0, 1), (1, 0), (1, 1)], last_removed = None \<rparr>
   \<and> \<not> filled_matches \<lparr> size_b = 2, row_refs = [0, 1], row_objects = [[None, Some 0], [Some 1, Some 0]],
           filled_squares = [(0, 0), (0, 1), (1, 0), (1, 1)], last_removed = None \<rparr>
   \<and> dense_square 2 (map (row_at [[Some 0, Some 1]]) [0, 0])
   \<and> run_from_new 2 (Some ([0, 0], [[Some 0, Some 1]])) (draws_of []) [RemoveRandomCell 0] =
     Inr \<lparr> size_b = 2, row_refs = [0, 0], row_objects = [[None, Some 1]],
           filled_squares = [(0, 1), (1, 0), (1, 1)], last_removed = Some (0, 0, Some 0) \<rparr>
   \<and> grid \<lparr> size_b = 2, row_refs = [0, 0], row_objects = [[None, Some 1]],
           filled_squares = [(0, 1), (1, 0), (1, 1)], last_removed = Some (0, 0, Some 0) \<rparr> =
       [[None, Some 1], [None, Some 1]]
   \<and> \<not> filled_matches \<lparr> size_b = 2, row_refs = [0, 0], row_objects = [[None, Some 1]],
           filled_squares = [(0, 1), (1, 0), (1, 1)], last_removed = Some (0, 0, Some 0) \<rparr>"
  by code_simp

text \<open>
  C6, amended: for a grid constructed without a supplied grid, or from a supplied grid that
  is square of the given size with no empty cell and whose rows are separate list objects,
  and after any sequence of removals and undos in which every undo directly follows a
  removal, the filled list holds exactly the positions whose cell is not empty.
\<close>

theorem filled_matches_invariant:
  assumes "initial_grid = None \<or>
           (\<exists>refs objs. initial_grid = Some (refs, objs) \<and> distinct refs
                         \<and> dense_square sz (map (row_at objs) refs))"
    and "undo_follows_remove False ops"
    and "run_from_new sz initial_grid rnd ops = Inr b"
  shows "filled_matches b"
proof -
  obtain b0 where b0: "Binairo_init sz initial_grid rnd = Inr b0" and run: "run_ops ops b0 = Inr b"
    using assms(3) by (auto simp: run_from_new_def split: sum.splits)
  have "grid_inv b0"
    using assms(1) b0 grid_inv_init_random grid_inv_init_dense by blast
  from run_ops_grid_inv[OF this _ assms(2) run] show ?thesis by (simp add: grid_inv_def)
qed

theorem filled_matches_invariant_witness:
  "undo_follows_remove False [RemoveRandomCell 0, UndoLastRemoval, RemoveRandomCell 1]
   \<and> run_from_new 2 None (draws_of [0, 1]) [RemoveRandomCell 0, UndoLastRemoval, RemoveRandomCell 1] =
       Inr \<lparr> size_b = 2, row_refs = [0, 1], row_objects = [[Some 0, Some 0], [None, Some 1]],
           filled_squares = [(0, 1), (1, 1), (0, 0)], last_removed = Some (1, 0, Some 1) \<rparr>
   \<and> filled_matches \<lparr> size_b = 2, row_refs = [0, 1], row_objects = [[Some 0, Some 0], [None, Some 1]],
           filled_squares = [(0, 1), (1, 1), (0, 0)], last_removed = Some (1, 0, Some 1) \<rparr>
   \<and> distinct [0, 1 :: nat]
   \<and> dense_square 2 (map (row_at [[Some 0, Some 1], [Some 0, Some 1]]) [0, 1])
   \<and> run_from_new 2 (Some ([0, 1], [[Some 0, Some 1], [Some 0, Some 1]])) (draws_of [])
         [RemoveRandomCell 0] =
       Inr \<lparr> size_b = 2, row_refs = [0, 1], row_objects = [[None, Some 1], [Some 0, Some 1]],
           filled_squares = [(0, 1), (1, 0), (1, 1)], last_removed = Some (0, 0, Some 0) \<rparr>
   \<and> filled_matches \<lparr> size_b = 2, row_refs = [0, 1], row_objects = [[None, Some 1], [Some 0, Some 1]],
           filled_squares = [(0, 1), (1, 0), (1, 1)], last_removed = Some (0, 0, Some 0) \<rparr>"
proof -
  have run: "run_from_new 2 None (draws_of [0, 1]) [RemoveRandomCell 0, UndoLastRemoval, RemoveRandomCell 1] =
       Inr \<lparr> size_b = 2, row_refs = [0, 1], row_objects = [[Some 0, Some 0], [None, Some 1]],
           filled_squares = [(0, 1), (1, 1), (0, 0)], last_removed = Some (1, 0, Some 1) \<rparr>"
    by code_simp
  have paired: "undo_follows_remove False [RemoveRandomCell 0, UndoLastRemoval, RemoveRandomCell 1]"
    by simp
  have run2: "run_from_new 2 (Some ([0, 1], [[Some 0, Some 1], [Some 0, Some 1]])) (draws_of [])
         [RemoveRandomCell 0] =
       Inr \<lparr> size_b = 2, row_refs = [0, 1], row_objects = [[None, Some 1], [Some 0, Some 1]],
           filled_squares = [(0, 1), (1, 0), (1, 1)], last_removed = Some (0, 0, Some 0) \<rparr>"
    by code_simp
  have paired2: "undo_follows_remove False [RemoveRandomCell 0]" by simp
  have d: "distinct [0, 1 :: nat]" by simp
  have ds: "dense_square 2 (map (row_at [[Some 0, Some 1], [Some 0, Some 1]]) [0, 1])"
    by code_simp
  have sup: "Some ([0, 1 :: nat], [[Some 0, Some 1], [Some 0, Some (1 :: int)]]) = None \<or>
      (\<exists>refs objs. Some ([0, 1 :: nat], [[Some 0, Some 1], [Some 0, Some (1 :: int)]]) = Some (refs, objs)
          \<and> distinct refs \<and> dense_square 2 (map (row_at objs) refs))"
    using d ds by blast
  from filled_matches_invariant [OF _ paired run] filled_matches_invariant [OF sup paired2 run2]
    run paired run2 d ds
  show ?thesis by simp
qed

section \<open>Properties of the constraint model\<close>

text \<open>
  C3. For a grid of \<open>size\<close> rows with \<open>size\<close> cells each, building the model succeeds and
  the model contains exactly the constraints the specification lists: the fixed-value
  constraint of every non-empty cell, the two bounds on every window of three consecutive
  positions in every row and column, and the balance constraint of every row and column
  (\<open>spec_constraints\<close>). Its variables are one per cell with bounds 0 and 1.
\<close>

theorem build_model_contains_exactly:
  assumes "grid_shape sz g"
  shows "\<exists>m var_grid. build_model sz g = Inr (m, var_grid)
           \<and> set (constraints m) = spec_constraints sz g
           \<and> int_vars m = map (\<lambda>k. (k, 0, 1)) (nested_range sz sz)
           \<and> var_grid = nested_range sz sz"
proof -
  have "set (concat (map (fixed_constraint g) (nested_range sz sz))
              @ concat (map (c1_window_constraints sz) (nested_range sz (sz - 2)))
              @ map (\<lambda>i. Eq_c (SumE (map (\<lambda>j. (i, j)) (py_range sz))) (sz div 2)) (py_range sz)
              @ map (\<lambda>j. Eq_c (SumE (map (\<lambda>i. (i, j)) (py_range sz))) (sz div 2)) (py_range sz))
        = spec_constraints sz g"
    unfolding spec_constraints_def set_append set_fixed set_c1 set_c2[unfolded set_append]
    by (simp add: Un_assoc)
  then show ?thesis
    by (simp add: build_model_eq[OF assms])
qed

theorem build_model_contains_exactly_witness:
  "grid_shape 3 [[Some 0, None, Some 1], [None, None, None], [Some 1, Some 1, None]]
   \<and> build_model 3 [[Some 0, None, Some 1], [None, None, None], [Some 1, Some 1, None]] =
       Inr (\<lparr> int_vars =
                [((0, 0), 0, 1), ((0, 1), 0, 1), ((0, 2), 0, 1), ((1, 0), 0, 1), ((1, 1), 0, 1),
                 ((1, 2), 0, 1), ((2, 0), 0, 1), ((2, 1), 0, 1), ((2, 2), 0, 1)],
              constraints =
                [Eq_c (VarE (0, 0)) 0, Eq_c (VarE (0, 2)) 1, Eq_c (VarE (2, 0)) 1,
                 Eq_c (VarE (2, 1)) 1,
                 Gt_c (SumE [(0, 0), (0, 1), (0, 2)]) 0, Lt_c (SumE [(0, 0), (0, 1), (0, 2)]) 3,
                 Gt_c (SumE [(0, 0), (1, 0), (2, 0)]) 0, Lt_c (SumE [(0, 0), (1, 0), (2, 0)]) 3,
                 Gt_c (SumE [(1, 0), (1, 1), (1, 2)]) 0, Lt_c (SumE [(1, 0), (1, 1), (1, 2)]) 3,
                 Gt_c (SumE [(0, 1), (1, 1), (2, 1)]) 0, Lt_c (SumE [(0, 1), (1, 1), (2, 1)]) 3,
                 Gt_c (SumE [(2, 0), (2, 1), (2, 2)]) 0, Lt_c (SumE [(2, 0), (2, 1), (2, 2)]) 3,
                 Gt_c (SumE [(0, 2), (1, 2), (2, 2)]) 0, Lt_c (SumE [(0, 2), (1, 2), (2, 2)]) 3,
                 Eq_c (SumE [(0, 0), (0, 1), (0, 2)]) 1, Eq_c (SumE [(1, 0), (1, 1), (1, 2)]) 1,
                 Eq_c (SumE [(2, 0), (2, 1), (2, 2)]) 1, Eq_c (SumE [(0, 0), (1, 0), (2, 0)]) 1,
                 Eq_c (SumE [(0, 1), (1, 1), (2, 1)]) 1, Eq_c (SumE [(0, 2), (1, 2), (2, 2)]) 1] \<rparr>,
            [(0, 0), (0, 1), (0, 2), (1, 0), (1, 1), (1, 2), (2, 0), (2, 1), (2, 2)])
   \<and> set [Eq_c (VarE (0, 0)) 0, Eq_c (VarE (0, 2)) 1, Eq_c (VarE (2, 0)) 1,
                 Eq_c (VarE (2, 1)) 1,
                 Gt_c (SumE [(0, 0), (0, 1), (0, 2)]) 0, Lt_c (SumE [(0, 0), (0, 1), (0, 2)]) 3,
                 Gt_c (SumE [(0, 0), (1, 0), (2, 0)]) 0, Lt_c (SumE [(0, 0), (1, 0), (2, 0)]) 3,
                 Gt_c (SumE [(1, 0), (1, 1), (1, 2)]) 0, Lt_c (SumE [(1, 0), (1, 1), (1, 2)]) 3,
                 Gt_c (SumE [(0, 1), (1, 1), (2, 1)]) 0, Lt_c (SumE [(0, 1), (1, 1), (2, 1)]) 3,
                 Gt_c (SumE [(2, 0), (2, 1), (2, 2)]) 0, Lt_c (SumE [(2, 0), (2, 1), (2, 2)]) 3,
                 Gt_c (SumE [(0, 2), (1, 2), (2, 2)]) 0, Lt_c (SumE [(0, 2), (1, 2), (2, 2)]) 3,
                 Eq_c (SumE [(0, 0), (0, 1), (0, 2)]) 1, Eq_c (SumE [(1, 0), (1, 1), (1, 2)]) 1,
                 Eq_c (SumE [(2, 0), (2, 1), (2, 2)]) 1, Eq_c (SumE [(0, 0), (1, 0), (2, 0)]) 1,
                 Eq_c (SumE [(0, 1), (1, 1), (2, 1)]) 1, Eq_c (SumE [(0, 2), (1, 2), (2, 2)]) 1]
       = spec_constraints 3 [[Some 0, None, Some 1], [None, None, None], [Some 1, Some 1, None]]"
proof -
  have s: "grid_shape 3 [[Some 0, None, Some 1], [None, None, None], [Some 1, Some 1, None]]"
    by (simp add: grid_shape_def)
  have e: "build_model 3 [[Some 0, None, Some 1], [None, None, None], [Some 1, Some 1, None]] =
       Inr (\<lparr> int_vars =
                [((0, 0), 0, 1), ((0, 1), 0, 1), ((0, 2), 0, 1), ((1, 0), 0, 1), ((1, 1), 0, 1),
                 ((1, 2), 0, 1), ((2, 0), 0, 1), ((2, 1), 0, 1), ((2, 2), 0, 1)],
              constraints =
                [Eq_c (VarE (0, 0)) 0, Eq_c (VarE (0, 2)) 1, Eq_c (VarE (2, 0)) 1,
                 Eq_c (VarE (2, 1)) 1,
                 Gt_c (SumE [(0, 0), (0, 1), (0, 2)]) 0, Lt_c (SumE [(0, 0), (0, 1), (0, 2)]) 3,
                 Gt_c (SumE [(0, 0), (1, 0), (2, 0)]) 0, Lt_c (SumE [(0, 0), (1, 0), (2, 0)]) 3,
                 Gt_c (SumE [(1, 0), (1, 1), (1, 2)]) 0, Lt_c (SumE [(1, 0), (1, 1), (1, 2)]) 3,
                 Gt_c (SumE [(0, 1), (1, 1), (2, 1)]) 0, Lt_c (SumE [(0, 1), (1, 1), (2, 1)]) 3,
                 Gt_c (SumE [(2, 0), (2, 1), (2, 2)]) 0, Lt_c (SumE [(2, 0), (2, 1), (2, 2)]) 3,
                 Gt_c (SumE [(0, 2), (1, 2), (2, 2)]) 0, Lt_c (SumE [(0, 2), (1, 2), (2, 2)]) 3,
                 Eq_c (SumE [(0, 0), (0, 1), (0, 2)]) 1, Eq_c (SumE [(1, 0), (1, 1), (1, 2)]) 1,
                 Eq_c (SumE [(2, 0), (2, 1), (2, 2)]) 1, Eq_c (SumE [(0, 0), (1, 0), (2, 0)]) 1,
                 Eq_c (SumE [(0, 1), (1, 1), (2, 1)]) 1, Eq_c (SumE [(0, 2), (1, 2), (2, 2)]) 1] \<rparr>,
            [(0, 0), (0, 1), (0, 2), (1, 0), (1, 1), (1, 2), (2, 0), (2, 1), (2, 2)])"
    by code_simp
  from build_model_contains_exactly [OF s] obtain m var_grid where
    "build_model 3 [[Some 0, None, Some 1], [None, None, None], [Some 1, Some 1, None]] = Inr (m, var_grid)"
    and c: "set (constraints m) =
      spec_constraints 3 [[Some 0, None, Some 1], [None, None, None], [Some 1, Some 1, None]]"
    by blast
  with e have "m = \<lparr> int_vars =
                [((0, 0), 0, 1), ((0, 1), 0, 1), ((0, 2), 0, 1), ((1, 0), 0, 1), ((1, 1), 0, 1),
                 ((1, 2), 0, 1), ((2, 0), 0, 1), ((2, 1), 0, 1), ((2, 2), 0, 1)],
              constraints =
                [Eq_c (VarE (0, 0)) 0, Eq_c (VarE (0, 2)) 1, Eq_c (VarE (2, 0)) 1,
                 Eq_c (VarE (2, 1)) 1,
                 Gt_c (SumE [(0, 0), (0, 1), (0, 2)]) 0, Lt_c (SumE [(0, 0), (0, 1), (0, 2)]) 3,
                 Gt_c (SumE [(0, 0), (1, 0), (2, 0)]) 0, Lt_c (SumE [(0, 0), (1, 0), (2, 0)]) 3,
                 Gt_c (SumE [(1, 0), (1, 1), (1, 2)]) 0, Lt_c (SumE [(1, 0), (1, 1), (1, 2)]) 3,
                 Gt_c (SumE [(0, 1), (1, 1), (2, 1)]) 0, Lt_c (SumE [(0, 1), (1, 1), (2, 1)]) 3,
                 Gt_c (SumE [(2, 0), (2, 1), (2, 2)]) 0, Lt_c (SumE [(2, 0), (2, 1), (2, 2)]) 3,
                 Gt_c (SumE [(0, 2), (1, 2), (2, 2)]) 0, Lt_c (SumE [(0, 2), (1, 2), (2, 2)]) 3,
                 Eq_c (SumE [(0, 0), (0, 1), (0, 2)]) 1, Eq_c (SumE [(1, 0), (1, 1), (1, 2)]) 1,
                 Eq_c (SumE [(2, 0), (2, 1), (2, 2)]) 1, Eq_c (SumE [(0, 0), (1, 0), (2, 0)]) 1,
                 Eq_c (SumE [(0, 1), (1, 1), (2, 1)]) 1, Eq_c (SumE [(0, 2), (1, 2), (2, 2)]) 1] \<rparr>"
    by simp
  with c have "set [Eq_c (VarE (0, 0)) 0, Eq_c (VarE (0, 2)) 1, Eq_c (VarE (2, 0)) 1,
                 Eq_c (VarE (2, 1)) 1,
                 Gt_c (SumE [(0, 0), (0, 1), (0, 2)]) 0, Lt_c (SumE [(0, 0), (0, 1), (0, 2)]) 3,
                 Gt_c (SumE [(0, 0), (1, 0), (2, 0)]) 0, Lt_c (SumE [(0, 0), (1, 0), (2, 0)]) 3,
                 Gt_c (SumE [(1, 0), (1, 1), (1, 2)]) 0, Lt_c (SumE [(1, 0), (1, 1), (1, 2)]) 3,
                 Gt_c (SumE [(0, 1), (1, 1), (2, 1)]) 0, Lt_c (SumE [(0, 1), (1, 1), (2, 1)]) 3,
                 Gt_c (SumE [(2, 0), (2, 1), (2, 2)]) 0, Lt_c (SumE [(2, 0), (2, 1), (2, 2)]) 3,
                 Gt_c (SumE [(0, 2), (1, 2), (2, 2)]) 0, Lt_c (SumE [(0, 2), (1, 2), (2, 2)]) 3,
                 Eq_c (SumE [(0, 0), (0, 1), (0, 2)]) 1, Eq_c (SumE [(1, 0), (1, 1), (1, 2)]) 1,
                 Eq_c (SumE [(2, 0), (2, 1), (2, 2)]) 1, Eq_c (SumE [(0, 0), (1, 0), (2, 0)]) 1,
                 Eq_c (SumE [(0, 1), (1, 1), (2, 1)]) 1, Eq_c (SumE [(0, 2), (1, 2), (2, 2)]) 1]
       = spec_constraints 3 [[Some 0, None, Some 1], [None, None, None], [Some 1, Some 1, None]]"
    by (simp del: set_simps)
  with s e show ?thesis by (simp only: simp_thms)
qed

section \<open>Properties of the solution enumeration\<close>



section \<open>Properties of generate\_binairo\<close>

text \<open>
  C1. For every puzzle that \<^verbatim>\<open>generate_binairo\<close> returns, enumerating the valid solutions
  of the returned grid again (the solver run followed by the C3 filter, with the same
  solver) yields exactly one solution: the one returned with the puzzle.
\<close>

theorem generated_puzzle_has_one_solution:
  assumes "generate_binairo order sz rnd picks = Some (Inr (b, s))"
  shows "get_valid_solutions order sz (grid b) = Inr [s]"
proof -
  from assms obtain sols where ex: "generate_loop_exit order sz rnd picks = Some (Inr (b, sols))"
    and hd: "sols \<noteq> []" "s = hd sols"
    by (auto simp: generate_binairo_def split: option.splits sum.splits list.splits)
  from generate_loop_exit_one[OF ex] hd show ?thesis by (cases sols) auto
qed

theorem generated_puzzle_has_one_solution_witness:
  "generate_binairo exhaustive_order 2 (draws_of [0, 1]) [1, 2] =
     Some (Inr (\<lparr> size_b = 2, row_refs = [0, 1], row_objects = [[Some 0, None], [Some 1, None]],
                  filled_squares = [(0, 0), (1, 0)], last_removed = Some (1, 1, Some 1) \<rparr>,
                [[0, 1], [1, 1]]))
   \<and> get_valid_solutions exhaustive_order 2 [[Some 0, None], [Some 1, None]] = Inr [[[0, 1], [1, 1]]]"
proof -
  have run: "generate_binairo exhaustive_order 2 (draws_of [0, 1]) [1, 2] =
     Some (Inr (\<lparr> size_b = 2, row_refs = [0, 1], row_objects = [[Some 0, None], [Some 1, None]],
                  filled_squares = [(0, 0), (1, 0)], last_removed = Some (1, 1, Some 1) \<rparr>,
                [[0, 1], [1, 1]]))"
    by code_simp
  from generated_puzzle_has_one_solution [OF run] run show ?thesis
    by (simp add: grid_def row_at_def)
qed

text \<open>
  C10. Whenever the removal loop of \<^verbatim>\<open>generate_binairo\<close> ends, the variable
  \<^verbatim>\<open>solutions\<close> holds exactly one element, so \<^verbatim>\<open>solutions[0]\<close> in the return expression
  is in bounds and \<^verbatim>\<open>generate_binairo\<close> returns the grid with that element.
\<close>

theorem loop_exit_solutions_nonempty:
  assumes "generate_loop_exit order sz rnd picks = Some (Inr (b, sols))"
  shows "length sols = 1 \<and> generate_binairo order sz rnd picks = Some (Inr (b, sols ! 0))"
proof -
  from generate_loop_exit_one[OF assms] have "length sols = 1" by simp
  then obtain s where "sols = [s]" by (cases sols) auto
  with assms show ?thesis by (simp add: generate_binairo_def)
qed

theorem loop_exit_solutions_nonempty_witness:
  "generate_loop_exit exhaustive_order 2 (draws_of [0, 1]) [0, 0, 0] =
     Some (Inr (\<lparr> size_b = 2, row_refs = [0, 1], row_objects = [[None, None], [None, Some 1]],
                  filled_squares = [(1, 1)], last_removed = Some (1, 0, Some 1) \<rparr>,
                [[[1, 0], [0, 0]]]))
   \<and> length [[[1, 0], [0, 0 :: int]]] = 1
   \<and> generate_binairo exhaustive_order 2 (draws_of [0, 1]) [0, 0, 0] =
     Some (Inr (\<lparr> size_b = 2, row_refs = [0, 1], row_objects = [[None, None], [None, Some 1]],
                  filled_squares = [(1, 1)], last_removed = Some (1, 0, Some 1) \<rparr>,
                [[1, 0], [0, 0]]))"
proof -
  have run: "generate_loop_exit exhaustive_order 2 (draws_of [0, 1]) [0, 0, 0] =
     Some (Inr (\<lparr> size_b = 2, row_refs = [0, 1], row_objects = [[None, None], [None, Some 1]],
                  filled_squares = [(1, 1)], last_removed = Some (1, 0, Some 1) \<rparr>,
                [[[1, 0], [0, 0]]]))"
    by code_simp
  from loop_exit_solutions_nonempty [OF run] run show ?thesis by simp
qed

text \<open>
  C2. Claim: the solution returned with a puzzle satisfies C1, C2 and C3 and agrees with
  the puzzle's filled cells. On the code it need not: for board size 2, rows drawn as 0 and
  1, and removals of \<open>(0, 1)\<close> and then \<open>(1, 1)\<close>, the only assignment that satisfies the
  model is \<open>[0, 1, 1, 0]\<close> (the board with rows \<open>[0, 1]\<close> and \<open>[1, 0]\<close>), but the board
  returned has rows \<open>[0, 1]\<close> and \<open>[1, 1]\<close>, whose second row sums to 2 and not to half the
  size: \<^verbatim>\<open>_solve\<close> reads \<^verbatim>\<open>raw_solutions[s][i+j]\<close> for the cell in row \<open>j\<close>, column \<open>i\<close>.
\<close>

theorem generate_binairo_returns_unbalanced_solution:
  "generate_binairo exhaustive_order 2 (draws_of [0, 1]) [1, 2] =
     Some (Inr (\<lparr> size_b = 2, row_refs = [0, 1], row_objects = [[Some 0, None], [Some 1, None]],
                  filled_squares = [(0, 0), (1, 0)], last_removed = Some (1, 1, Some 1) \<rparr>,
                [[0, 1], [1, 1]]))
   \<and> sum_list ([[0, 1], [1, 1]] ! 1) \<noteq> (2 :: int) div 2
   \<and> (case build_model 2 [[Some 0, None], [Some 1, None]] of
          Inl e \<Rightarrow> []
        | Inr (m, vars) \<Rightarrow> filter (satisfies m) (exhaustive_order m)) = [[0, 1, 1, 0]]"
  by code_simp

end
